theory Spec2Isabelle
  imports Main "HOL-Library.Word"
begin

unbundle bit_operations_syntax

section \<open>Common types\<close>

text \<open>
  The return codes of the runtime (\<open>dart_ret_t\<close>): the four kinds the spec names
  (\<open>OK\<close>, \<open>AGAIN\<close>, \<open>INVAL\<close>, \<open>OTHER\<close>) and \<open>DART_PENDING\<close>, the code a
  \<open>trylock\<close> on a busy mutex answers with.
\<close>

datatype dart_ret_t = DART_OK | DART_PENDING | DART_ERR_INVAL | DART_ERR_AGAIN | DART_ERR_OTHER

type_synonym size_t = "64 word"

section \<open>Context manager (dart\_tasking\_context.c)\<close>

subsection \<open>Stack size\<close>

text \<open>\<open>#define DEFAULT_TASK_STACK_SIZE (1<<21)\<close>\<close>

definition DEFAULT_TASK_STACK_SIZE :: size_t where
  "DEFAULT_TASK_STACK_SIZE = push_bit 21 1"

text \<open>
  Modelled from the spec: \<open>dart__base__env__size\<close> lives in base/env.c, which is not part
  of the sources.  The spec describes \<open>TASKSTACKSIZE\<close> as the per-task stack size in bytes;
  the call site passes the default \<open>-1\<close>.  The environment is the optional byte count; an
  unset variable yields the default.  The result is an \<open>ssize_t\<close>, kept as a 64-bit word
  that is read signed.
\<close>

definition dart__base__env__size :: "size_t option \<Rightarrow> size_t \<Rightarrow> size_t" where
  "dart__base__env__size env dflt = (case env of None \<Rightarrow> dflt | Some v \<Rightarrow> v)"

text \<open>The two file-level statics \<open>task_stack_size\<close> and \<open>page_size\<close>.\<close>

record context_globals =
  task_stack_size :: size_t
  page_size :: size_t

definition context_globals_initial :: context_globals where
  "context_globals_initial = \<lparr> task_stack_size = DEFAULT_TASK_STACK_SIZE, page_size = 0 \<rparr>"

text \<open>\<open>(size + mask) & ~mask\<close> with \<open>mask = page_size - 1\<close>.\<close>

definition dart__tasking__context_adjust_size :: "context_globals \<Rightarrow> size_t \<Rightarrow> size_t" where
  "dart__tasking__context_adjust_size g sz =
     (let mask = page_size g - 1 in (sz + mask) AND NOT mask)"

text \<open>
  \<open>dart__tasking__context_init\<close>.  The first argument is the value of
  \<open>sysconf(_SC_PAGESIZE)\<close>, the second the environment variable.  The test
  \<open>env_stack_size > -1\<close> is a signed comparison, the test
  \<open>task_stack_size < page_size\<close> an unsigned one.
\<close>

definition dart__tasking__context_init ::
  "size_t \<Rightarrow> size_t option \<Rightarrow> context_globals \<Rightarrow> context_globals" where
  "dart__tasking__context_init sysconf_pagesize env g =
     (let g1 = g\<lparr> page_size := sysconf_pagesize \<rparr>;
          env_stack_size = dart__base__env__size env (- 1);
          g2 = (if - 1 < sint env_stack_size
                then g1\<lparr> task_stack_size := env_stack_size \<rparr> else g1)
      in if task_stack_size g2 < page_size g2
         then g2\<lparr> task_stack_size := page_size g2 \<rparr> else g2)"

subsection \<open>Free lists of contexts\<close>

text \<open>
  Modelled from the spec: \<open>dart__base__stack_push\<close> and \<open>dart__base__stack_pop\<close> are
  declared in base/stack.h, which is not part of the sources.  The spec calls the free
  lists stacks with push and pop: a push puts the element on top, a pop takes the top
  element or yields \<open>NULL\<close> on an empty stack.
\<close>

definition dart__base__stack_push :: "'a list \<Rightarrow> 'a \<Rightarrow> 'a list" where
  "dart__base__stack_push st e = e # st"

definition dart__base__stack_pop :: "'a list \<Rightarrow> 'a option \<times> 'a list" where
  "dart__base__stack_pop st = (case st of [] \<Rightarrow> (None, []) | e # r \<Rightarrow> (Some e, r))"

text \<open>
  \<open>struct context_list_s\<close>: the owner thread, the stack address, and of the embedded
  \<open>context_t\<close> the stack pointer and size of the \<open>ucontext_t\<close> and the entry function and
  its argument.  Pointers are addresses (\<open>nat\<close>) and \<open>NULL\<close> is \<open>None\<close>; a context is
  identified with the address of its list entry (the code converts between the two with
  \<open>offsetof\<close>).
\<close>

record context_list_s =
  owner :: nat
  stack :: nat
  ss_sp :: "nat option"
  ss_size :: size_t
  fn :: "nat option"
  arg :: "nat option"

text \<open>
  The part of the process state the context manager works on: the statics, the allocated
  list entries, and for every thread its free list \<open>thread->ctxlist\<close>.
\<close>

record context_state =
  globals :: context_globals
  entries :: "nat \<rightharpoonup> context_list_s"
  ctxlist :: "nat \<Rightarrow> nat list"

text \<open>
  \<open>dart__tasking__context_allocate\<close> (without \<open>USE_MMAP\<close>, \<open>USE_MPROTECT\<close> and valgrind).
  \<open>memalign\<close> is the outcome of \<open>posix_memalign\<close>: the address of the new block, or
  \<open>None\<close> when it fails, in which case \<open>DART_ASSERT_RETURNS\<close> aborts.  \<open>sizeof_entry\<close> is
  \<open>sizeof(context_list_t)\<close>.
\<close>

definition dart__tasking__context_allocate ::
  "nat \<Rightarrow> size_t \<Rightarrow> nat option \<Rightarrow> context_state \<Rightarrow> (nat \<times> context_state) option" where
  "dart__tasking__context_allocate self sizeof_entry memalign s =
     (let meta_size = dart__tasking__context_adjust_size (globals s) sizeof_entry
      in case memalign of
           None \<Rightarrow> None
         | Some p \<Rightarrow>
             Some (p, s\<lparr> entries := (entries s)(p \<mapsto>
                    \<lparr> owner = self, stack = p + unat meta_size,
                      ss_sp = None, ss_size = 0, fn = None, arg = None \<rparr>) \<rparr>))"

text \<open>
  \<open>dart__tasking__context_create\<close> (with \<open>USE_UCONTEXT\<close>, without \<open>DART_DEBUG\<close>):
  pop an entry from the calling thread's free list or allocate a new one, then store the
  function and its argument.  A popped address that is no entry is a wild pointer.
\<close>

definition dart__tasking__context_create ::
  "nat \<Rightarrow> nat \<Rightarrow> nat \<Rightarrow> size_t \<Rightarrow> nat option \<Rightarrow> context_state
     \<Rightarrow> (nat \<times> context_state) option" where
  "dart__tasking__context_create self f a sizeof_entry memalign s =
     (case dart__base__stack_pop (ctxlist s self) of
        (Some c, rest) \<Rightarrow>
          (let s1 = s\<lparr> ctxlist := (ctxlist s)(self := rest) \<rparr>
           in case entries s1 c of
                None \<Rightarrow> None
              | Some e \<Rightarrow>
                  if ss_sp e = None then None
                  else Some (c, s1\<lparr> entries := (entries s1)(c \<mapsto> e\<lparr> fn := Some f, arg := Some a \<rparr>) \<rparr>))
      | (None, rest) \<Rightarrow>
          (let s1 = s\<lparr> ctxlist := (ctxlist s)(self := rest) \<rparr>
           in case dart__tasking__context_allocate self sizeof_entry memalign s1 of
                None \<Rightarrow> None
              | Some (c, s2) \<Rightarrow>
                  (case entries s2 c of
                     None \<Rightarrow> None
                   | Some e \<Rightarrow>
                       Some (c, s2\<lparr> entries := (entries s2)(c \<mapsto>
                               e\<lparr> ss_sp := Some (stack e),
                                  ss_size := task_stack_size (globals s2),
                                  fn := Some f, arg := Some a \<rparr>) \<rparr>))))"

text \<open>
  \<open>dart__tasking__context_release\<close> (with \<open>USE_UCONTEXT\<close>, without \<open>DART_DEBUG\<close>): the
  entry goes onto the free list of \<open>ctxlist->owner\<close>.  The function does not look at the
  calling thread at all.
\<close>

definition dart__tasking__context_release :: "nat \<Rightarrow> context_state \<Rightarrow> context_state option" where
  "dart__tasking__context_release c s =
     (case entries s c of
        None \<Rightarrow> None
      | Some e \<Rightarrow>
          if ss_sp e = None then None
          else Some (s\<lparr> ctxlist := (ctxlist s)(owner e :=
                         dart__base__stack_push (ctxlist s (owner e)) c) \<rparr>))"

text \<open>Every entry on a thread's free list is an initialised entry owned by that thread.\<close>

definition ctx_inv :: "context_state \<Rightarrow> bool" where
  "ctx_inv s = (\<forall>t. distinct (ctxlist s t) \<and> (\<forall>c \<in> set (ctxlist s t).
                  \<exists>e. entries s c = Some e \<and> owner e = t \<and> ss_sp e \<noteq> None))"

definition context_state_initial :: context_state where
  "context_state_initial =
     \<lparr> globals = context_globals_initial, entries = Map.empty, ctxlist = (\<lambda>_. []) \<rparr>"

section \<open>Copy-in buffers (dart\_tasking\_copyin.c)\<close>

subsection \<open>Size-keyed memory pools\<close>

text \<open>\<open>#define MEMPOOL_MAGIC_NUM 0xDEADBEEF\<close>\<close>

definition MEMPOOL_MAGIC_NUM :: "64 word" where
  "MEMPOOL_MAGIC_NUM = 0xDEADBEEF"

text \<open>
  \<open>struct mem_pool_elem\<close> and \<open>struct mem_pool\<close>.  The stack link of an element and the
  \<open>next\<close> pointer of a pool are represented by the position in the list that holds them.
\<close>

record mem_pool_elem =
  mem :: nat
  magic :: "64 word"
  mpool :: nat

record mem_pool_t =
  size :: size_t
  elems :: "nat list"

text \<open>
  The static \<open>mem_pool\<close> (the chain of pools, head first, as addresses) together with the
  pool and element objects on the heap.
\<close>

record mempool_state =
  mem_pool :: "nat list"
  pool_heap :: "nat \<rightharpoonup> mem_pool_t"
  elem_heap :: "nat \<rightharpoonup> mem_pool_elem"

definition mempool_state_initial :: mempool_state where
  "mempool_state_initial = \<lparr> mem_pool = [], pool_heap = Map.empty, elem_heap = Map.empty \<rparr>"

text \<open>
  \<open>find_mem_pool\<close>: walk the chain and stop at the first pool of the requested size.  A
  chain entry that is no pool object is a wild pointer (\<open>None\<close> as the outer result).
\<close>

fun find_mem_pool_from :: "(nat \<rightharpoonup> mem_pool_t) \<Rightarrow> nat list \<Rightarrow> size_t \<Rightarrow> nat option option" where
  "find_mem_pool_from ph [] sz = Some None"
| "find_mem_pool_from ph (p # ps) sz =
     (case ph p of
        None \<Rightarrow> None
      | Some r \<Rightarrow> if sz = size r then Some (Some p) else find_mem_pool_from ph ps sz)"

definition find_mem_pool :: "mempool_state \<Rightarrow> size_t \<Rightarrow> nat option option" where
  "find_mem_pool s sz = find_mem_pool_from (pool_heap s) (mem_pool s) sz"

text \<open>
  \<open>allocate_from_mempool\<close>.  \<open>sizeof_elem\<close> is \<open>sizeof(mem_pool_elem_t)\<close>; \<open>malloc_pool\<close>
  and \<open>malloc_elem\<close> are the results of the two calls of \<open>malloc\<close> (used only when the
  call is reached; the code dereferences the result unchecked, so \<open>NULL\<close> is a crash).
  The second search under the lock finds what the first one found.
\<close>

definition allocate_from_mempool ::
  "nat \<Rightarrow> nat option \<Rightarrow> nat option \<Rightarrow> size_t \<Rightarrow> mempool_state \<Rightarrow> (nat \<times> mempool_state) option" where
  "allocate_from_mempool sizeof_elem malloc_pool malloc_elem sz s =
     (case find_mem_pool s sz of
        None \<Rightarrow> None
      | Some found \<Rightarrow>
          (case (case found of
                   Some p \<Rightarrow> Some (p, s)
                 | None \<Rightarrow>
                     (case malloc_pool of
                        None \<Rightarrow> None
                      | Some p \<Rightarrow>
                          Some (p, s\<lparr> mem_pool := p # mem_pool s,
                                     pool_heap := (pool_heap s)(p \<mapsto> \<lparr> size = sz, elems = [] \<rparr>) \<rparr>))) of
             None \<Rightarrow> None
           | Some (p, s1) \<Rightarrow>
               (case pool_heap s1 p of
                  None \<Rightarrow> None
                | Some r \<Rightarrow>
                    (case dart__base__stack_pop (elems r) of
                       (Some e, rest) \<Rightarrow>
                         (case elem_heap s1 e of
                            None \<Rightarrow> None
                          | Some x \<Rightarrow>
                              Some (mem x, s1\<lparr> pool_heap := (pool_heap s1)(p \<mapsto> r\<lparr> elems := rest \<rparr>) \<rparr>))
                     | (None, rest) \<Rightarrow>
                         (case malloc_elem of
                            None \<Rightarrow> None
                          | Some e \<Rightarrow>
                              Some (e + sizeof_elem,
                                    s1\<lparr> pool_heap := (pool_heap s1)(p \<mapsto> r\<lparr> elems := rest \<rparr>),
                                        elem_heap := (elem_heap s1)(e \<mapsto>
                                          \<lparr> mem = e + sizeof_elem, magic = MEMPOOL_MAGIC_NUM,
                                            mpool = p \<rparr>) \<rparr>))))))"

text \<open>
  \<open>return_to_mempool\<close>: step back from the buffer to its element header, check the magic
  word (\<open>DART_ASSERT_MSG\<close> aborts on a mismatch) and push the element onto the pool its
  back reference names.
\<close>

definition return_to_mempool :: "nat \<Rightarrow> nat \<Rightarrow> mempool_state \<Rightarrow> mempool_state option" where
  "return_to_mempool sizeof_elem m s =
     (if m < sizeof_elem then None
      else case elem_heap s (m - sizeof_elem) of
             None \<Rightarrow> None
           | Some x \<Rightarrow>
               if magic x \<noteq> MEMPOOL_MAGIC_NUM then None
               else (case pool_heap s (mpool x) of
                       None \<Rightarrow> None
                     | Some r \<Rightarrow>
                         Some (s\<lparr> pool_heap := (pool_heap s)(mpool x \<mapsto>
                                  r\<lparr> elems := dart__base__stack_push (elems r) (m - sizeof_elem) \<rparr>) \<rparr>)))"

subsection \<open>Preparing and releasing a copy-in dependency\<close>

datatype dart_task_deptype_t =
  DART_DEP_IN | DART_DEP_OUT | DART_DEP_INOUT | DART_DEP_COPYIN | DART_DEP_COPYIN_R
  | DART_DEP_COPYIN_OUT | DART_DEP_DELAYED_IN | DART_DEP_DIRECT

text \<open>
  Of \<open>dart_task_dep_t\<close> the type, the phase and the \<open>copyin\<close> part (\<open>size\<close> and \<open>dest\<close>);
  of \<open>dart_dephash_elem_t\<close> the dependency and the destructor hook.  The only destructor
  the copy-in engine installs is \<open>dart_tasking_copyin_release_mem\<close>.
\<close>

record dart_task_dep_t =
  dep_type :: dart_task_deptype_t
  dep_phase :: int
  copyin_size :: size_t
  copyin_dest :: "nat option"

datatype dtor_t = Dtor_copyin_release_mem

record dart_dephash_elem_t =
  dep :: dart_task_dep_t
  dtor :: "dtor_t option"

text \<open>
  The loop of \<open>dart_tasking_copyin_prepare_dep\<close> over \<open>task->deps_owned\<close> (a chain through
  \<open>next_in_task\<close>, here a list): the position of the first \<open>COPYIN_OUT\<close> dependency.
\<close>

fun find_copyin_out :: "dart_dephash_elem_t list \<Rightarrow> nat option" where
  "find_copyin_out [] = None"
| "find_copyin_out (e # es) =
     (if dep_type (dep e) = DART_DEP_COPYIN_OUT then Some 0
      else map_option Suc (find_copyin_out es))"

text \<open>
  \<open>dart_tasking_copyin_prepare_dep\<close> on the dependencies owned by the current task.  The
  assertion fails when there is no \<open>COPYIN_OUT\<close> dependency.  The result is the position of
  the dependency, the updated chain and the updated pools.
\<close>

definition dart_tasking_copyin_prepare_dep ::
  "nat \<Rightarrow> nat option \<Rightarrow> nat option \<Rightarrow> dart_dephash_elem_t list \<Rightarrow> mempool_state
     \<Rightarrow> (nat \<times> dart_dephash_elem_t list \<times> mempool_state) option" where
  "dart_tasking_copyin_prepare_dep sizeof_elem malloc_pool malloc_elem deps_owned s =
     (case find_copyin_out deps_owned of
        None \<Rightarrow> None
      | Some i \<Rightarrow>
          (let el = deps_owned ! i in
           if copyin_dest (dep el) = None then
             (case allocate_from_mempool sizeof_elem malloc_pool malloc_elem
                     (copyin_size (dep el)) s of
                None \<Rightarrow> None
              | Some (buf, s1) \<Rightarrow>
                  Some (i, deps_owned[i := el\<lparr> dep := (dep el)\<lparr> copyin_dest := Some buf \<rparr>,
                                              dtor := Some Dtor_copyin_release_mem \<rparr>], s1))
           else Some (i, deps_owned, s)))"

text \<open>\<open>dart_tasking_copyin_release_mem\<close>, the destructor.\<close>

definition dart_tasking_copyin_release_mem ::
  "nat \<Rightarrow> dart_dephash_elem_t \<Rightarrow> mempool_state \<Rightarrow> (dart_dephash_elem_t \<times> mempool_state) option" where
  "dart_tasking_copyin_release_mem sizeof_elem el s =
     (case copyin_dest (dep el) of
        None \<Rightarrow> None
      | Some buf \<Rightarrow>
          (case return_to_mempool sizeof_elem buf s of
             None \<Rightarrow> None
           | Some s1 \<Rightarrow> Some (el\<lparr> dep := (dep el)\<lparr> copyin_dest := None \<rparr> \<rparr>, s1)))"

text \<open>
  Well-formed pools: the chain holds distinct pool objects, and every element on the free
  list of a pool is an element object whose back reference names that pool, whose buffer
  starts right behind its header and whose magic word is intact.
\<close>

definition mp_inv :: "nat \<Rightarrow> mempool_state \<Rightarrow> bool" where
  "mp_inv sizeof_elem s =
     (distinct (mem_pool s) \<and>
      (\<forall>p \<in> set (mem_pool s). \<exists>r. pool_heap s p = Some r \<and>
         (\<forall>e \<in> set (elems r). \<exists>x. elem_heap s e = Some x \<and> mpool x = p
              \<and> mem x = e + sizeof_elem \<and> magic x = MEMPOOL_MAGIC_NUM)))"

text \<open>
  An example state: a pool for buffers of 512 bytes with an empty free list, and a pool
  for buffers of 1024 bytes whose free list holds the element at address 2000 (an
  element header takes 32 bytes).
\<close>

definition example_pools :: mempool_state where
  "example_pools =
     \<lparr> mem_pool = [1000, 1100],
       pool_heap = [1000 \<mapsto> \<lparr> size = 512, elems = [] \<rparr>,
                    1100 \<mapsto> \<lparr> size = 1024, elems = [2000] \<rparr>],
       elem_heap = [2000 \<mapsto> \<lparr> mem = 2032, magic = MEMPOOL_MAGIC_NUM, mpool = 1100 \<rparr>] \<rparr>"

section \<open>Active messages over send and receive (the sendrecv message queue)\<close>

text \<open>
  The transport is MPI, which is outside the repository.  Its answers are arguments of the
  functions below: the outcome of \<open>MPI_Testsome\<close> (the count and the completed indices),
  the return code of a send and the request handle a nonblocking send produces.
\<close>

definition MPI_SUCCESS :: int where
  "MPI_SUCCESS = 0"

text \<open>
  \<open>struct dart_amsgq_impl_data\<close>.  A request is \<open>None\<close> when it is \<open>MPI_REQUEST_NULL\<close>;
  a buffer is its bytes.  The communicator, the tag and the ranks are opaque to the code
  below and left out.  \<open>processing_mutex\<close> is \<open>True\<close> while the mutex is held.  The C
  \<open>int\<close> and \<open>int64_t\<close> counters are integers: they stay far from their bounds.
\<close>

record dart_amsgq_impl_data =
  recv_bufs :: "8 word list list"
  send_reqs :: "nat option list"
  send_bufs :: "8 word list list"
  send_count :: "int list"
  recv_count :: "int list"
  send_tailpos :: int
  msg_size :: nat
  msg_count :: int
  processing_mutex :: bool
  direct_send :: bool
  sync_send :: bool

text \<open>
  \<open>MPI_Testsome\<close> sets the requests that completed to \<open>MPI_REQUEST_NULL\<close>.
\<close>

definition testsome_completed :: "nat option list \<Rightarrow> int \<Rightarrow> int list \<Rightarrow> nat option list" where
  "testsome_completed reqs outcount outidx =
     fold (\<lambda>i r. r[nat i := None]) (take (nat outcount) outidx) reqs"

text \<open>
  The inner loop of \<open>amsgq_test_sendreqs_unsafe\<close>:
  \<open>while (back_pos > done_idx && send_reqs[back_pos] == MPI_REQUEST_NULL) back_pos--\<close>.
  A read outside the array has no result.
\<close>

function skip_null :: "nat option list \<Rightarrow> int \<Rightarrow> int \<Rightarrow> int option" where
  "skip_null reqs done_idx back_pos =
     (if back_pos > done_idx then
        (if back_pos < 0 \<or> int (length reqs) \<le> back_pos then None
         else if reqs ! nat back_pos = None then skip_null reqs done_idx (back_pos - 1)
         else Some back_pos)
      else Some back_pos)"
  by pat_completeness auto
termination
  by (relation "measure (\<lambda>(reqs, done_idx, back_pos). nat (back_pos - done_idx))") auto

text \<open>
  The outer loop over the completed indices: move the request and the buffer at
  \<open>back_pos\<close> into the free spot, or stop when the two positions meet.
\<close>

fun move_back ::
  "int list \<Rightarrow> int \<Rightarrow> nat option list \<Rightarrow> 8 word list list
     \<Rightarrow> (nat option list \<times> 8 word list list) option" where
  "move_back [] back_pos reqs bufs = Some (reqs, bufs)"
| "move_back (done_idx # rest) back_pos reqs bufs =
     (case skip_null reqs done_idx back_pos of
        None \<Rightarrow> None
      | Some bp \<Rightarrow>
          if done_idx \<ge> bp then Some (reqs, bufs)
          else if done_idx < 0 \<or> int (length reqs) \<le> bp \<or> int (length bufs) \<le> bp then None
          else move_back rest (bp - 1)
                 (reqs[nat done_idx := reqs ! nat bp, nat bp := None])
                 (bufs[nat done_idx := bufs ! nat bp, nat bp := bufs ! nat done_idx]))"

text \<open>\<open>amsgq_test_sendreqs_unsafe\<close>, given the outcome of \<open>MPI_Testsome\<close>.\<close>

definition amsgq_test_sendreqs_unsafe ::
  "int \<times> int list \<Rightarrow> dart_amsgq_impl_data \<Rightarrow> (dart_ret_t \<times> dart_amsgq_impl_data) option" where
  "amsgq_test_sendreqs_unsafe testsome q =
     (case testsome of (outcount, outidx) \<Rightarrow>
       (let q1 = q\<lparr> send_reqs := testsome_completed (send_reqs q) outcount outidx \<rparr> in
        if outcount > 0 then
          (if outcount = send_tailpos q1 then Some (DART_OK, q1\<lparr> send_tailpos := 0 \<rparr>)
           else (case move_back (take (nat outcount) outidx) (msg_count q1 - 1)
                        (send_reqs q1) (send_bufs q1) of
                   None \<Rightarrow> None
                 | Some (r, b) \<Rightarrow>
                     Some (DART_OK, q1\<lparr> send_reqs := r, send_bufs := b,
                                         send_tailpos := send_tailpos q1 - outcount \<rparr>)))
        else Some (DART_ERR_AGAIN, q1)))"

text \<open>\<open>amsgq->send_count[target.id]++\<close>; an index outside the array has no result.\<close>

definition bump_send_count :: "int \<Rightarrow> dart_amsgq_impl_data \<Rightarrow> dart_amsgq_impl_data option" where
  "bump_send_count target q =
     (if 0 \<le> target \<and> target < int (length (send_count q))
      then Some (q\<lparr> send_count := (send_count q)[nat target := send_count q ! nat target + 1] \<rparr>)
      else None)"

text \<open>
  \<open>dart_amsg_sendrecv_trysend\<close>.  \<open>testsome\<close> is consulted only when the ring is full,
  \<open>mpi_ret\<close> is the return code of the send and \<open>req\<close> the request of a nonblocking
  send.  The send mutex is taken and released inside the call and not represented.
  Copying more bytes than a send buffer holds has no result.
\<close>

definition dart_amsg_sendrecv_trysend ::
  "int \<Rightarrow> 8 word list \<Rightarrow> int \<times> int list \<Rightarrow> int \<Rightarrow> nat \<Rightarrow> dart_amsgq_impl_data
     \<Rightarrow> (dart_ret_t \<times> dart_amsgq_impl_data) option" where
  "dart_amsg_sendrecv_trysend target data testsome mpi_ret req q =
     (if \<not> send_tailpos q \<le> msg_count q then None
      else
        (case
           (if \<not> direct_send q then
              (case (if send_tailpos q = msg_count q
                     then amsgq_test_sendreqs_unsafe testsome q else Some (DART_OK, q)) of
                 None \<Rightarrow> None
               | Some (r, q1) \<Rightarrow>
                   if r \<noteq> DART_OK then Some (Inl r, q1)
                   else
                     (let idx = send_tailpos q1;
                          q2 = q1\<lparr> send_tailpos := idx + 1 \<rparr> in
                      if idx < 0 \<or> int (length (send_bufs q2)) \<le> idx
                         \<or> int (length (send_reqs q2)) \<le> idx \<or> msg_size q2 < length data
                      then None
                      else
                        (let q3 = q2\<lparr> send_bufs := (send_bufs q2)[nat idx :=
                                        data @ drop (length data) (send_bufs q2 ! nat idx)],
                                      send_reqs := (send_reqs q2)[nat idx := Some req] \<rparr> in
                         if sync_send q3 then Some (Inr mpi_ret, q3)
                         else map_option (Pair (Inr mpi_ret)) (bump_send_count target q3))))
            else
              (if sync_send q then Some (Inr mpi_ret, q)
               else map_option (Pair (Inr mpi_ret)) (bump_send_count target q))) of
           None \<Rightarrow> None
         | Some (Inl r, q') \<Rightarrow> Some (r, q')
         | Some (Inr ret, q') \<Rightarrow>
             if ret \<noteq> MPI_SUCCESS then Some (DART_ERR_AGAIN, q') else Some (DART_OK, q')))"

text \<open>
  Modelled from the spec: \<open>dart__base__mutex_trylock\<close> is declared in base/mutex.h, which
  is not part of the sources.  The spec speaks of a busy processing mutex: the call
  acquires a free mutex and answers \<open>DART_OK\<close>; on a busy one it answers a code other
  than \<open>DART_OK\<close> and leaves the mutex alone.
\<close>

definition dart__base__mutex_trylock :: "bool \<Rightarrow> dart_ret_t \<times> bool" where
  "dart__base__mutex_trylock held = (if held then (DART_PENDING, held) else (DART_OK, True))"

text \<open>
  A message that \<open>MPI_Testsome\<close> reports as received: the index of the receive buffer, the
  byte count \<open>MPI_Get_elements\<close> yields, the source rank and the bytes MPI stored.
\<close>

record recv_event =
  ev_idx :: int
  ev_count :: int
  ev_source :: int
  ev_payload :: "8 word list"

text \<open>
  The \<open>for\<close> loop over the received messages.  Modelled from the spec:
  \<open>dart__amsgq__process_buffer\<close> is not part of the sources; it dispatches the payload to
  the active-message handler, which is recorded here as a log of the dispatched payloads.
\<close>

fun process_events ::
  "recv_event list \<Rightarrow> dart_amsgq_impl_data \<Rightarrow> 8 word list list
     \<Rightarrow> (dart_amsgq_impl_data \<times> 8 word list list) option" where
  "process_events [] q log = Some (q, log)"
| "process_events (ev # evs) q log =
     (if ev_idx ev < 0 \<or> int (length (recv_bufs q)) \<le> ev_idx ev then None
      else if \<not> ev_count ev > 0 then None
      else
        (let q1 = q\<lparr> recv_bufs := (recv_bufs q)[nat (ev_idx ev) := ev_payload ev] \<rparr> in
         case (if \<not> sync_send q1 then
                 (if 0 \<le> ev_source ev \<and> ev_source ev < int (length (recv_count q1))
                  then Some (q1\<lparr> recv_count := (recv_count q1)[nat (ev_source ev) :=
                                     recv_count q1 ! nat (ev_source ev) + 1] \<rparr>)
                  else None)
               else Some q1) of
           None \<Rightarrow> None
         | Some q2 \<Rightarrow>
             process_events evs q2 (log @ [take (nat (ev_count ev)) (ev_payload ev)])))"

text \<open>
  The \<open>do ... while (blocking && num_msg > 0)\<close> loop.  Each round consumes one outcome of
  \<open>MPI_Testsome\<close>; when the outcomes run out before the loop ends there is no result.
\<close>

fun process_rounds ::
  "bool \<Rightarrow> recv_event list list \<Rightarrow> dart_amsgq_impl_data \<Rightarrow> 8 word list list
     \<Rightarrow> (dart_amsgq_impl_data \<times> 8 word list list) option" where
  "process_rounds blocking [] q log = None"
| "process_rounds blocking (evs # rest) q log =
     (case process_events evs q log of
        None \<Rightarrow> None
      | Some (q1, log1) \<Rightarrow>
          if blocking \<and> length evs > 0 then process_rounds blocking rest q1 log1
          else Some (q1, log1))"

text \<open>
  \<open>amsg_sendrecv_process_internal\<close>.  A blocking \<open>lock\<close> on a mutex that another thread
  holds does not return in this sequential setting.
\<close>

definition amsg_sendrecv_process_internal ::
  "bool \<Rightarrow> bool \<Rightarrow> recv_event list list \<Rightarrow> dart_amsgq_impl_data
     \<Rightarrow> (dart_ret_t \<times> dart_amsgq_impl_data \<times> 8 word list list) option" where
  "amsg_sendrecv_process_internal blocking has_lock tests q =
     (case
        (if \<not> has_lock then
           (if \<not> blocking then
              (case dart__base__mutex_trylock (processing_mutex q) of
                 (ret, m) \<Rightarrow> if ret \<noteq> DART_OK then Some (Inl DART_ERR_AGAIN)
                             else Some (Inr (q\<lparr> processing_mutex := m \<rparr>)))
            else (if processing_mutex q then None
                  else Some (Inr (q\<lparr> processing_mutex := True \<rparr>))))
         else Some (Inr q)) of
        None \<Rightarrow> None
      | Some (Inl r) \<Rightarrow> Some (r, q, [])
      | Some (Inr q1) \<Rightarrow>
          (case process_rounds blocking tests q1 [] of
             None \<Rightarrow> None
           | Some (q2, log) \<Rightarrow>
               Some (DART_OK,
                     (if \<not> has_lock then q2\<lparr> processing_mutex := False \<rparr> else q2), log)))"

text \<open>\<open>dart_amsg_sendrecv_process\<close>: the nonblocking entry point.\<close>

definition dart_amsg_sendrecv_process ::
  "recv_event list list \<Rightarrow> dart_amsgq_impl_data
     \<Rightarrow> (dart_ret_t \<times> dart_amsgq_impl_data \<times> 8 word list list) option" where
  "dart_amsg_sendrecv_process tests q = amsg_sendrecv_process_internal False False tests q"

section \<open>Task queues (dart\_tasking\_taskqueue.c)\<close>

text \<open>
  Task priorities: the three levels and the two pseudo-priorities of the spec;
  \<open>DART_PRIO_VALUE\<close> stands for any other number in the enumeration's range (the copy-in
  engine passes \<open>INT_MAX-1\<close>).
\<close>

datatype dart_task_prio_t =
  DART_PRIO_PARENT | DART_PRIO_INLINE | DART_PRIO_LOW | DART_PRIO_DEFAULT | DART_PRIO_HIGH
  | DART_PRIO_VALUE int

text \<open>
  A task is identified with its address; \<open>NULL\<close> is \<open>None\<close>.  The fields of
  \<open>dart_task_t\<close> are kept as one function per field.  The task queue touches the links
  \<open>next\<close> and \<open>prev\<close> and reads \<open>prio\<close>; the record is extended below with the fields
  the scheduler uses.
\<close>

record task_links =
  t_next :: "nat \<Rightarrow> nat option"
  t_prev :: "nat \<Rightarrow> nat option"
  t_prio :: "nat \<Rightarrow> dart_task_prio_t"

text \<open>\<open>struct task_deque\<close> and \<open>dart_taskqueue_t\<close> (the mutex is not represented).\<close>

record task_deque =
  head :: "nat option"
  tail :: "nat option"

record dart_taskqueue_t =
  lowprio :: task_deque
  highprio :: task_deque

text \<open>
  The functions below return \<open>None\<close> where the C code dereferences \<open>NULL\<close> or where a
  \<open>DART_ASSERT\<close> fails.  \<open>dart_tasking_taskqueue_init\<close>:
\<close>

definition dart_tasking_taskqueue_init :: dart_taskqueue_t where
  "dart_tasking_taskqueue_init =
     \<lparr> lowprio = \<lparr> head = None, tail = None \<rparr>, highprio = \<lparr> head = None, tail = None \<rparr> \<rparr>"

subsection \<open>Deque operations\<close>

definition task_deque_pop ::
  "'a task_links_scheme \<Rightarrow> task_deque
     \<Rightarrow> (nat option \<times> 'a task_links_scheme \<times> task_deque) option" where
  "task_deque_pop h deque =
     (case head deque of
        None \<Rightarrow> if tail deque = None then Some (None, h, deque) else None
      | Some task \<Rightarrow>
          if tail deque = None then None
          else
            (case (if head deque = tail deque
                   then Some (h, deque\<lparr> head := None, tail := None \<rparr>)
                   else (case t_next h task of
                           None \<Rightarrow> None
                         | Some n \<Rightarrow>
                             Some (h\<lparr> t_prev := (t_prev h)(n := None) \<rparr>,
                                   deque\<lparr> head := Some n \<rparr>))) of
               None \<Rightarrow> None
             | Some (h1, d1) \<Rightarrow>
                 (let h2 = h1\<lparr> t_prev := (t_prev h1)(task := None) \<rparr>;
                      h3 = h2\<lparr> t_next := (t_next h2)(task := None) \<rparr> in
                  if (head d1 \<noteq> None \<and> tail d1 \<noteq> None) \<or> (head d1 = None \<and> tail d1 = None)
                  then Some (Some task, h3, d1) else None)))"

definition task_deque_push ::
  "'a task_links_scheme \<Rightarrow> task_deque \<Rightarrow> nat \<Rightarrow> ('a task_links_scheme \<times> task_deque) option" where
  "task_deque_push h deque task =
     (case (case head deque of
              None \<Rightarrow> (h, deque\<lparr> head := Some task, tail := Some task \<rparr>)
            | Some hd_task \<Rightarrow>
                (h\<lparr> t_next := (t_next h)(task := Some hd_task),
                    t_prev := (t_prev h)(hd_task := Some task) \<rparr>,
                 deque\<lparr> head := Some task \<rparr>)) of
        (h1, d1) \<Rightarrow> if head d1 \<noteq> None \<and> tail d1 \<noteq> None then Some (h1, d1) else None)"

definition task_deque_pushback ::
  "'a task_links_scheme \<Rightarrow> task_deque \<Rightarrow> nat \<Rightarrow> ('a task_links_scheme \<times> task_deque) option" where
  "task_deque_pushback h deque task =
     (case (case head deque of
              None \<Rightarrow> Some (h, deque\<lparr> head := Some task, tail := Some task \<rparr>)
            | Some hd_task \<Rightarrow>
                (case tail deque of
                   None \<Rightarrow> None
                 | Some tl_task \<Rightarrow>
                     Some (h\<lparr> t_prev := (t_prev h)(task := Some tl_task),
                             t_next := (t_next h)(tl_task := Some task) \<rparr>,
                           deque\<lparr> tail := Some task \<rparr>))) of
        None \<Rightarrow> None
      | Some (h1, d1) \<Rightarrow> if head d1 \<noteq> None \<and> tail d1 \<noteq> None then Some (h1, d1) else None)"

text \<open>
  The search loop of \<open>task_deque_insert\<close>:
  \<open>while (tmp != NULL && count++ < pos) tmp = tmp->next\<close>.
\<close>

function insert_find :: "(nat \<Rightarrow> nat option) \<Rightarrow> nat option \<Rightarrow> nat \<Rightarrow> nat \<Rightarrow> nat option" where
  "insert_find nxt tmp count pos =
     (case tmp of
        None \<Rightarrow> None
      | Some t \<Rightarrow> if count < pos then insert_find nxt (nxt t) (count + 1) pos else Some t)"
  by pat_completeness auto
termination
  by (relation "measure (\<lambda>(nxt, tmp, count, pos). pos - count)") auto

definition task_deque_insert ::
  "'a task_links_scheme \<Rightarrow> task_deque \<Rightarrow> nat \<Rightarrow> nat
     \<Rightarrow> ('a task_links_scheme \<times> task_deque) option" where
  "task_deque_insert h deque task pos =
     (if pos = 0 \<or> head deque = None then task_deque_push h deque task
      else
        (case insert_find (t_next h) (head deque) 0 pos of
           None \<Rightarrow> task_deque_pushback h deque task
         | Some tmp \<Rightarrow>
             (case t_next h tmp of
                None \<Rightarrow> task_deque_pushback h deque task
              | Some n \<Rightarrow>
                  (let h1 = h\<lparr> t_next := (t_next h)(task := None) \<rparr>;
                       h2 = h1\<lparr> t_prev := (t_prev h1)(task := None) \<rparr>;
                       h3 = h2\<lparr> t_next := (t_next h2)(task := Some n) \<rparr>;
                       h4 = h3\<lparr> t_prev := (t_prev h3)(n := Some task) \<rparr>;
                       h5 = h4\<lparr> t_prev := (t_prev h4)(task := Some tmp) \<rparr>;
                       h6 = h5\<lparr> t_next := (t_next h5)(tmp := Some task) \<rparr> in
                   if head deque \<noteq> None \<and> tail deque \<noteq> None then Some (h6, deque)
                   else None))))"

definition task_deque_popback ::
  "'a task_links_scheme \<Rightarrow> task_deque
     \<Rightarrow> (nat option \<times> 'a task_links_scheme \<times> task_deque) option" where
  "task_deque_popback h deque =
     (case tail deque of
        None \<Rightarrow> Some (None, h, deque)
      | Some task \<Rightarrow>
          if head deque = None then None
          else
            (let d1 = deque\<lparr> tail := t_prev h task \<rparr>;
                 hd1 = (case tail d1 of
                          None \<Rightarrow> (h, d1\<lparr> head := None \<rparr>)
                        | Some p \<Rightarrow> (h\<lparr> t_next := (t_next h)(p := None) \<rparr>, d1));
                 h2 = (fst hd1)\<lparr> t_prev := (t_prev (fst hd1))(task := None) \<rparr>;
                 h3 = h2\<lparr> t_next := (t_next h2)(task := None) \<rparr>
             in Some (Some task, h3, snd hd1)))"

text \<open>\<open>task_deque_move\<close> works on two different deques; it always answers \<open>DART_OK\<close>.\<close>

definition task_deque_move ::
  "'a task_links_scheme \<Rightarrow> task_deque \<Rightarrow> task_deque
     \<Rightarrow> (dart_ret_t \<times> 'a task_links_scheme \<times> task_deque \<times> task_deque)" where
  "task_deque_move h dst src =
     (case (head src, tail src) of
        (Some src_head, Some src_tail) \<Rightarrow>
          (case (case head dst of
                   Some dst_head \<Rightarrow>
                     (h\<lparr> t_next := (t_next h)(src_tail := Some dst_head),
                         t_prev := (t_prev h)(dst_head := Some src_tail) \<rparr>, dst)
                 | None \<Rightarrow> (h, dst\<lparr> tail := Some src_tail \<rparr>)) of
             (h1, dst1) \<Rightarrow>
               (DART_OK, h1, dst1\<lparr> head := Some src_head \<rparr>,
                src\<lparr> tail := None, head := None \<rparr>))
      | _ \<Rightarrow> (DART_OK, h, dst, src))"

subsection \<open>Queue operations\<close>

text \<open>
  The \<open>_unsafe\<close> functions.  The variants without that suffix take the queue's mutex
  around the same call; with one thread at a time they compute the same.
\<close>

definition dart_tasking_taskqueue_push_unsafe ::
  "'a task_links_scheme \<Rightarrow> dart_taskqueue_t \<Rightarrow> nat
     \<Rightarrow> ('a task_links_scheme \<times> dart_taskqueue_t) option" where
  "dart_tasking_taskqueue_push_unsafe h tq task =
     (if Some task = head (highprio tq) \<or> Some task = head (lowprio tq) then None
      else
        (let h1 = h\<lparr> t_next := (t_next h)(task := None) \<rparr>;
             h2 = h1\<lparr> t_prev := (t_prev h1)(task := None) \<rparr> in
         if t_prio h2 task = DART_PRIO_HIGH
         then map_option (\<lambda>(h3, d). (h3, tq\<lparr> highprio := d \<rparr>))
                (task_deque_push h2 (highprio tq) task)
         else map_option (\<lambda>(h3, d). (h3, tq\<lparr> lowprio := d \<rparr>))
                (task_deque_push h2 (lowprio tq) task)))"

definition dart_tasking_taskqueue_pop_unsafe ::
  "'a task_links_scheme \<Rightarrow> dart_taskqueue_t
     \<Rightarrow> (nat option \<times> 'a task_links_scheme \<times> dart_taskqueue_t) option" where
  "dart_tasking_taskqueue_pop_unsafe h tq =
     (case task_deque_pop h (highprio tq) of
        None \<Rightarrow> None
      | Some (task, h1, d) \<Rightarrow>
          (let tq1 = tq\<lparr> highprio := d \<rparr> in
           if task = None
           then map_option (\<lambda>(task2, h2, d2). (task2, h2, tq1\<lparr> lowprio := d2 \<rparr>))
                  (task_deque_pop h1 (lowprio tq1))
           else Some (task, h1, tq1)))"

definition dart_tasking_taskqueue_pushback_unsafe ::
  "'a task_links_scheme \<Rightarrow> dart_taskqueue_t \<Rightarrow> nat
     \<Rightarrow> ('a task_links_scheme \<times> dart_taskqueue_t) option" where
  "dart_tasking_taskqueue_pushback_unsafe h tq task =
     (let h1 = h\<lparr> t_next := (t_next h)(task := None) \<rparr>;
          h2 = h1\<lparr> t_prev := (t_prev h1)(task := None) \<rparr> in
      if t_prio h2 task = DART_PRIO_HIGH
      then map_option (\<lambda>(h3, d). (h3, tq\<lparr> highprio := d \<rparr>))
             (task_deque_pushback h2 (highprio tq) task)
      else map_option (\<lambda>(h3, d). (h3, tq\<lparr> lowprio := d \<rparr>))
             (task_deque_pushback h2 (lowprio tq) task))"

definition dart_tasking_taskqueue_insert_unsafe ::
  "'a task_links_scheme \<Rightarrow> dart_taskqueue_t \<Rightarrow> nat \<Rightarrow> nat
     \<Rightarrow> ('a task_links_scheme \<times> dart_taskqueue_t) option" where
  "dart_tasking_taskqueue_insert_unsafe h tq task pos =
     (let h1 = h\<lparr> t_next := (t_next h)(task := None) \<rparr>;
          h2 = h1\<lparr> t_prev := (t_prev h1)(task := None) \<rparr> in
      if t_prio h2 task = DART_PRIO_HIGH
      then map_option (\<lambda>(h3, d). (h3, tq\<lparr> highprio := d \<rparr>))
             (task_deque_insert h2 (highprio tq) task pos)
      else map_option (\<lambda>(h3, d). (h3, tq\<lparr> lowprio := d \<rparr>))
             (task_deque_insert h2 (lowprio tq) task pos))"

definition dart_tasking_taskqueue_popback_unsafe ::
  "'a task_links_scheme \<Rightarrow> dart_taskqueue_t
     \<Rightarrow> (nat option \<times> 'a task_links_scheme \<times> dart_taskqueue_t) option" where
  "dart_tasking_taskqueue_popback_unsafe h tq =
     (case task_deque_popback h (highprio tq) of
        None \<Rightarrow> None
      | Some (task, h1, d) \<Rightarrow>
          (let tq1 = tq\<lparr> highprio := d \<rparr> in
           if task = None
           then map_option (\<lambda>(task2, h2, d2). (task2, h2, tq1\<lparr> lowprio := d2 \<rparr>))
                  (task_deque_popback h1 (lowprio tq1))
           else Some (task, h1, tq1)))"

text \<open>
  \<open>dart_tasking_taskqueue_remove_unsafe\<close> for a task that is not \<open>NULL\<close> (for \<open>NULL\<close>
  the function does nothing).
\<close>

definition dart_tasking_taskqueue_remove_unsafe ::
  "'a task_links_scheme \<Rightarrow> dart_taskqueue_t \<Rightarrow> nat
     \<Rightarrow> ('a task_links_scheme \<times> dart_taskqueue_t)" where
  "dart_tasking_taskqueue_remove_unsafe h tq task =
     (let prev = t_prev h task;
          next = t_next h task;
          h1 = (case prev of None \<Rightarrow> h | Some p \<Rightarrow> h\<lparr> t_next := (t_next h)(p := next) \<rparr>);
          h2 = (case next of None \<Rightarrow> h1 | Some n \<Rightarrow> h1\<lparr> t_prev := (t_prev h1)(n := prev) \<rparr>);
          h3 = h2\<lparr> t_prev := (t_prev h2)(task := None) \<rparr>;
          h4 = h3\<lparr> t_next := (t_next h3)(task := None) \<rparr>;
          tq1 = (if Some task = head (highprio tq)
                 then tq\<lparr> highprio := (highprio tq)\<lparr> head := next \<rparr> \<rparr>
                 else if Some task = head (lowprio tq)
                 then tq\<lparr> lowprio := (lowprio tq)\<lparr> head := next \<rparr> \<rparr>
                 else tq);
          tq2 = (if Some task = tail (highprio tq1)
                 then tq1\<lparr> highprio := (highprio tq1)\<lparr> tail := prev \<rparr> \<rparr>
                 else if Some task = tail (lowprio tq1)
                 then tq1\<lparr> lowprio := (lowprio tq1)\<lparr> tail := prev \<rparr> \<rparr>
                 else tq1)
      in (h4, tq2))"

definition dart_tasking_taskqueue_move_unsafe ::
  "'a task_links_scheme \<Rightarrow> dart_taskqueue_t \<Rightarrow> dart_taskqueue_t
     \<Rightarrow> ('a task_links_scheme \<times> dart_taskqueue_t \<times> dart_taskqueue_t)" where
  "dart_tasking_taskqueue_move_unsafe h dst src =
     (case task_deque_move h (highprio dst) (highprio src) of
        (r1, h1, dh, sh) \<Rightarrow>
          (case task_deque_move h1 (lowprio dst) (lowprio src) of
             (r2, h2, dl, sl) \<Rightarrow>
               (h2, dst\<lparr> highprio := dh, lowprio := dl \<rparr>, src\<lparr> highprio := sh, lowprio := sl \<rparr>)))"

subsection \<open>The list a deque holds\<close>

text \<open>
  A deque is read as the list of tasks from its head to its tail.  \<open>chain nx pv p xs q\<close>
  says that the tasks \<open>xs\<close> are linked in this order through \<open>next\<close> and \<open>prev\<close>, with
  \<open>p\<close> before the first and \<open>q\<close> after the last one.
\<close>

fun first_of :: "nat list \<Rightarrow> nat option \<Rightarrow> nat option" where
  "first_of [] q = q"
| "first_of (x # xs) q = Some x"

fun last_of :: "nat option \<Rightarrow> nat list \<Rightarrow> nat option" where
  "last_of p [] = p"
| "last_of p (x # xs) = last_of (Some x) xs"

fun chain ::
  "(nat \<Rightarrow> nat option) \<Rightarrow> (nat \<Rightarrow> nat option) \<Rightarrow> nat option \<Rightarrow> nat list \<Rightarrow> nat option \<Rightarrow> bool" where
  "chain nx pv p [] q = True"
| "chain nx pv p (x # xs) q =
     (pv x = p \<and> nx x = first_of xs q \<and> chain nx pv (Some x) xs q)"

definition dq_rep :: "'a task_links_scheme \<Rightarrow> task_deque \<Rightarrow> nat list \<Rightarrow> bool" where
  "dq_rep h d xs =
     (distinct xs \<and> head d = first_of xs None \<and> tail d = last_of None xs
      \<and> chain (t_next h) (t_prev h) None xs None)"

text \<open>
  \<open>links_frame h h' S\<close>: from \<open>h\<close> to \<open>h'\<close> only the links of the tasks in \<open>S\<close> changed.
\<close>

definition links_frame :: "'a task_links_scheme \<Rightarrow> 'a task_links_scheme \<Rightarrow> nat set \<Rightarrow> bool" where
  "links_frame h h' S =
     (h' = h\<lparr> t_next := t_next h', t_prev := t_prev h' \<rparr>
      \<and> (\<forall>x. x \<notin> S \<longrightarrow> t_next h' x = t_next h x \<and> t_prev h' x = t_prev h x))"

text \<open>
  The position at which \<open>task_deque_insert\<close> places a task in a deque of \<open>n\<close> tasks:
  the front for \<open>pos = 0\<close>, otherwise behind the task at index \<open>pos\<close>, or the back when
  the deque has no task behind that index.
\<close>

definition insert_position :: "nat \<Rightarrow> nat \<Rightarrow> nat" where
  "insert_position pos n = (if pos = 0 then 0 else min (pos + 1) n)"

text \<open>
  A queue holds the list \<open>hs\<close> in its high-priority deque and the list \<open>ls\<close> in its
  low-priority deque: no task is in both, and a task is in the high-priority deque
  exactly when its priority is \<open>DART_PRIO_HIGH\<close>.
\<close>

definition tq_rep :: "'a task_links_scheme \<Rightarrow> dart_taskqueue_t \<Rightarrow> nat list \<Rightarrow> nat list \<Rightarrow> bool" where
  "tq_rep h tq hs ls =
     (dq_rep h (highprio tq) hs \<and> dq_rep h (lowprio tq) ls \<and> set hs \<inter> set ls = {}
      \<and> (\<forall>t \<in> set hs. t_prio h t = DART_PRIO_HIGH)
      \<and> (\<forall>t \<in> set ls. t_prio h t \<noteq> DART_PRIO_HIGH))"

text \<open>
  The common shape of the queue operations, used in the proofs only: \<open>tq_add\<close> for the
  three operations that add a task (clear the links, then run a deque operation \<open>f\<close> on
  the deque the priority selects), \<open>tq_take\<close> for the two that take a task (try the
  high-priority deque, then the low-priority one).  \<open>insert_at\<close> is the list after an
  insertion.
\<close>

definition tq_add ::
  "('a task_links_scheme \<Rightarrow> task_deque \<Rightarrow> ('a task_links_scheme \<times> task_deque) option)
     \<Rightarrow> 'a task_links_scheme \<Rightarrow> dart_taskqueue_t \<Rightarrow> nat
     \<Rightarrow> ('a task_links_scheme \<times> dart_taskqueue_t) option" where
  "tq_add f h tq task =
     (let h1 = h\<lparr> t_next := (t_next h)(task := None) \<rparr>;
          h2 = h1\<lparr> t_prev := (t_prev h1)(task := None) \<rparr> in
      if t_prio h2 task = DART_PRIO_HIGH
      then map_option (\<lambda>(h3, d). (h3, tq\<lparr> highprio := d \<rparr>)) (f h2 (highprio tq))
      else map_option (\<lambda>(h3, d). (h3, tq\<lparr> lowprio := d \<rparr>)) (f h2 (lowprio tq)))"

definition tq_take ::
  "('a task_links_scheme \<Rightarrow> task_deque \<Rightarrow> (nat option \<times> 'a task_links_scheme \<times> task_deque) option)
     \<Rightarrow> 'a task_links_scheme \<Rightarrow> dart_taskqueue_t
     \<Rightarrow> (nat option \<times> 'a task_links_scheme \<times> dart_taskqueue_t) option" where
  "tq_take f h tq =
     (case f h (highprio tq) of
        None \<Rightarrow> None
      | Some (task, h1, d) \<Rightarrow>
          (let tq1 = tq\<lparr> highprio := d \<rparr> in
           if task = None
           then map_option (\<lambda>(task2, h2, d2). (task2, h2, tq1\<lparr> lowprio := d2 \<rparr>))
                  (f h1 (lowprio tq1))
           else Some (task, h1, tq1)))"

definition insert_at :: "nat \<Rightarrow> nat \<Rightarrow> nat list \<Rightarrow> nat list" where
  "insert_at pos t xs = take (insert_position pos (length xs)) xs
                          @ t # drop (insert_position pos (length xs)) xs"

subsection \<open>The queues of the process\<close>

text \<open>
  The array \<open>task_queue\<close> (one queue per NUMA node) next to the task fields.  A pointer
  to a queue is the index into this array; an index outside the array is a wild pointer.
  The functions below are the public ones, which lock the queue and call the \<open>_unsafe\<close>
  function.
\<close>

record tq_state = task_links +
  task_queue :: "dart_taskqueue_t list"

definition with_queue ::
  "nat \<Rightarrow> ('a tq_state_scheme \<Rightarrow> dart_taskqueue_t \<Rightarrow> ('r \<times> 'a tq_state_scheme \<times> dart_taskqueue_t) option)
     \<Rightarrow> 'a tq_state_scheme \<Rightarrow> ('r \<times> 'a tq_state_scheme) option" where
  "with_queue q f s =
     (if q < length (task_queue s)
      then (case f s (task_queue s ! q) of
              None \<Rightarrow> None
            | Some (r, s1, tq) \<Rightarrow> Some (r, s1\<lparr> task_queue := (task_queue s1)[q := tq] \<rparr>))
      else None)"

definition dart_tasking_taskqueue_push ::
  "nat \<Rightarrow> nat \<Rightarrow> 'a tq_state_scheme \<Rightarrow> 'a tq_state_scheme option" where
  "dart_tasking_taskqueue_push q task s =
     map_option snd (with_queue q
       (\<lambda>h tq. map_option (Pair ()) (dart_tasking_taskqueue_push_unsafe h tq task)) s)"

definition dart_tasking_taskqueue_pushback ::
  "nat \<Rightarrow> nat \<Rightarrow> 'a tq_state_scheme \<Rightarrow> 'a tq_state_scheme option" where
  "dart_tasking_taskqueue_pushback q task s =
     map_option snd (with_queue q
       (\<lambda>h tq. map_option (Pair ()) (dart_tasking_taskqueue_pushback_unsafe h tq task)) s)"

definition dart_tasking_taskqueue_insert ::
  "nat \<Rightarrow> nat \<Rightarrow> nat \<Rightarrow> 'a tq_state_scheme \<Rightarrow> 'a tq_state_scheme option" where
  "dart_tasking_taskqueue_insert q task pos s =
     map_option snd (with_queue q
       (\<lambda>h tq. map_option (Pair ()) (dart_tasking_taskqueue_insert_unsafe h tq task pos)) s)"

definition dart_tasking_taskqueue_pop ::
  "nat \<Rightarrow> 'a tq_state_scheme \<Rightarrow> (nat option \<times> 'a tq_state_scheme) option" where
  "dart_tasking_taskqueue_pop q s = with_queue q dart_tasking_taskqueue_pop_unsafe s"

definition dart_tasking_taskqueue_popback ::
  "nat \<Rightarrow> 'a tq_state_scheme \<Rightarrow> (nat option \<times> 'a tq_state_scheme) option" where
  "dart_tasking_taskqueue_popback q s = with_queue q dart_tasking_taskqueue_popback_unsafe s"

definition dart_tasking_taskqueue_remove ::
  "nat \<Rightarrow> nat option \<Rightarrow> 'a tq_state_scheme \<Rightarrow> 'a tq_state_scheme option" where
  "dart_tasking_taskqueue_remove q task s =
     (case task of
        None \<Rightarrow> Some s
      | Some t \<Rightarrow>
          map_option snd (with_queue q
            (\<lambda>h tq. Some ((), dart_tasking_taskqueue_remove_unsafe h tq t)) s))"

text \<open>
  \<open>dart_tasking_taskqueue_move\<close> locks the destination and then the source.  With both
  arguments the same queue the second lock never succeeds: there is no result.
\<close>

definition dart_tasking_taskqueue_move ::
  "nat \<Rightarrow> nat \<Rightarrow> 'a tq_state_scheme \<Rightarrow> 'a tq_state_scheme option" where
  "dart_tasking_taskqueue_move dst src s =
     (if dst < length (task_queue s) \<and> src < length (task_queue s) \<and> dst \<noteq> src
      then (case dart_tasking_taskqueue_move_unsafe s (task_queue s ! dst) (task_queue s ! src) of
              (s1, d, sr) \<Rightarrow> Some (s1\<lparr> task_queue := (task_queue s1)[dst := d, src := sr] \<rparr>))
      else None)"

subsection \<open>Sequences of queue operations\<close>

datatype tq_op =
  Op_push nat nat | Op_pushback nat nat | Op_insert nat nat nat | Op_pop nat | Op_popback nat
  | Op_remove nat nat | Op_move nat nat

fun tq_apply :: "tq_op \<Rightarrow> 'a tq_state_scheme \<Rightarrow> 'a tq_state_scheme option" where
  "tq_apply (Op_push q t) s = dart_tasking_taskqueue_push q t s"
| "tq_apply (Op_pushback q t) s = dart_tasking_taskqueue_pushback q t s"
| "tq_apply (Op_insert q t pos) s = dart_tasking_taskqueue_insert q t pos s"
| "tq_apply (Op_pop q) s = map_option snd (dart_tasking_taskqueue_pop q s)"
| "tq_apply (Op_popback q) s = map_option snd (dart_tasking_taskqueue_popback q s)"
| "tq_apply (Op_remove q t) s = dart_tasking_taskqueue_remove q (Some t) s"
| "tq_apply (Op_move dst src) s = dart_tasking_taskqueue_move dst src s"

fun tq_run :: "tq_op list \<Rightarrow> 'a tq_state_scheme \<Rightarrow> 'a tq_state_scheme option" where
  "tq_run [] s = Some s"
| "tq_run (op # ops) s = (case tq_apply op s of None \<Rightarrow> None | Some s1 \<Rightarrow> tq_run ops s1)"

text \<open>The invariant of the spec, for every deque of every queue.\<close>

definition deque_inv :: "task_deque \<Rightarrow> bool" where
  "deque_inv d = ((head d = None) = (tail d = None))"

definition queues_inv :: "'a tq_state_scheme \<Rightarrow> bool" where
  "queues_inv s = list_all (\<lambda>tq. deque_inv (highprio tq) \<and> deque_inv (lowprio tq)) (task_queue s)"

text \<open>
  The contents of all queues: for each queue the list in its high-priority and in its
  low-priority deque.  \<open>op_allowed\<close> is the contract of the operations: a task is added
  only while it is in no queue, a task is removed from the queue that holds it, and tasks
  move between two different queues.  \<open>contents_after\<close> is the effect of an operation on
  the contents, given the priorities of the tasks.
\<close>

type_synonym tq_contents = "(nat list \<times> nat list) list"

definition queued :: "tq_contents \<Rightarrow> nat \<Rightarrow> bool" where
  "queued A t = list_ex (\<lambda>(hs, ls). t \<in> set hs \<or> t \<in> set ls) A"

fun op_allowed :: "tq_op \<Rightarrow> tq_contents \<Rightarrow> bool" where
  "op_allowed (Op_push q t) A = (q < length A \<and> \<not> queued A t)"
| "op_allowed (Op_pushback q t) A = (q < length A \<and> \<not> queued A t)"
| "op_allowed (Op_insert q t pos) A = (q < length A \<and> \<not> queued A t)"
| "op_allowed (Op_pop q) A = (q < length A)"
| "op_allowed (Op_popback q) A = (q < length A)"
| "op_allowed (Op_remove q t) A = (q < length A \<and> (t \<in> set (fst (A ! q)) \<or> t \<in> set (snd (A ! q))))"
| "op_allowed (Op_move dst src) A = (dst < length A \<and> src < length A \<and> dst \<noteq> src)"

definition add_with ::
  "(nat \<Rightarrow> dart_task_prio_t) \<Rightarrow> (nat list \<Rightarrow> nat list) \<Rightarrow> nat \<Rightarrow> nat \<Rightarrow> tq_contents \<Rightarrow> tq_contents" where
  "add_with prio g q t A =
     A[q := (if prio t = DART_PRIO_HIGH then (g (fst (A ! q)), snd (A ! q))
             else (fst (A ! q), g (snd (A ! q))))]"

definition take_with :: "(nat list \<Rightarrow> nat list) \<Rightarrow> nat \<Rightarrow> tq_contents \<Rightarrow> tq_contents" where
  "take_with g q A =
     A[q := (g (fst (A ! q)), if fst (A ! q) = [] then g (snd (A ! q)) else snd (A ! q))]"

fun contents_after :: "(nat \<Rightarrow> dart_task_prio_t) \<Rightarrow> tq_op \<Rightarrow> tq_contents \<Rightarrow> tq_contents" where
  "contents_after prio (Op_push q t) A = add_with prio ((#) t) q t A"
| "contents_after prio (Op_pushback q t) A = add_with prio (\<lambda>xs. xs @ [t]) q t A"
| "contents_after prio (Op_insert q t pos) A = add_with prio (insert_at pos t) q t A"
| "contents_after prio (Op_pop q) A = take_with tl q A"
| "contents_after prio (Op_popback q) A = take_with butlast q A"
| "contents_after prio (Op_remove q t) A = A[q := (removeAll t (fst (A ! q)), removeAll t (snd (A ! q)))]"
| "contents_after prio (Op_move dst src) A =
     A[dst := (fst (A ! src) @ fst (A ! dst), snd (A ! src) @ snd (A ! dst)), src := ([], [])]"

fun run_allowed :: "(nat \<Rightarrow> dart_task_prio_t) \<Rightarrow> tq_op list \<Rightarrow> tq_contents \<Rightarrow> bool" where
  "run_allowed prio [] A = True"
| "run_allowed prio (op # ops) A = (op_allowed op A \<and> run_allowed prio ops (contents_after prio op A))"

text \<open>The state holds the contents \<open>A\<close>: every queue holds its two lists, and no task is in two queues.\<close>

definition st_rep :: "'a tq_state_scheme \<Rightarrow> tq_contents \<Rightarrow> bool" where
  "st_rep s A =
     (length A = length (task_queue s)
      \<and> (\<forall>i < length A. tq_rep s (task_queue s ! i) (fst (A ! i)) (snd (A ! i)))
      \<and> (\<forall>i < length A. \<forall>j < length A. i \<noteq> j \<longrightarrow>
            (set (fst (A ! i)) \<union> set (snd (A ! i))) \<inter> (set (fst (A ! j)) \<union> set (snd (A ! j))) = {}))"

definition content_set :: "tq_contents \<Rightarrow> nat \<Rightarrow> nat set" where
  "content_set A i = set (fst (A ! i)) \<union> set (snd (A ! i))"

text \<open>
  An example state: two empty queues, no links, task 5 of high priority and every other
  task of default priority.
\<close>

definition example_queues :: tq_state where
  "example_queues =
     \<lparr> t_next = (\<lambda>_. None), t_prev = (\<lambda>_. None),
       t_prio = (\<lambda>t. if t = 5 then DART_PRIO_HIGH else DART_PRIO_DEFAULT),
       task_queue = [dart_tasking_taskqueue_init, dart_tasking_taskqueue_init] \<rparr>"

text \<open>
  A second example state: one queue with task 5 in the high-priority deque and the tasks
  1 and 2, in this order, in the low-priority deque.
\<close>

definition example_filled :: tq_state where
  "example_filled =
     \<lparr> t_next = (\<lambda>t. if t = 1 then Some 2 else None),
       t_prev = (\<lambda>t. if t = 2 then Some 1 else None),
       t_prio = (\<lambda>t. if t = 5 then DART_PRIO_HIGH else DART_PRIO_DEFAULT),
       task_queue = [\<lparr> lowprio = \<lparr> head = Some 1, tail = Some 2 \<rparr>,
                      highprio = \<lparr> head = Some 5, tail = Some 5 \<rparr> \<rparr>] \<rparr>"

section \<open>Scheduler (dart\_tasking.c)\<close>

subsection \<open>Tasks, threads and the process state\<close>

datatype dart_task_state_t =
  DART_TASK_NASCENT | DART_TASK_CREATED | DART_TASK_QUEUED | DART_TASK_DEFERRED
  | DART_TASK_RUNNING | DART_TASK_SUSPENDED | DART_TASK_BLOCKED | DART_TASK_DETACHED
  | DART_TASK_FINISHED | DART_TASK_CANCELLED | DART_TASK_DESTROYED | DART_TASK_ROOT
  | DART_TASK_DUMMY

text \<open>The flag bits of a task (\<open>task->flags\<close>), kept as a set.\<close>

datatype dart_task_flag_t =
  DART_TASK_HAS_REF | DART_TASK_INLINE | DART_TASK_IMMEDIATE | DART_TASK_IS_COMMTASK
  | DART_TASK_DATA_ALLOCATED

text \<open>The flag bits a caller passes to task creation; the code looks at \<open>NOYIELD\<close> only.\<close>

datatype dart_create_flag_t = DART_TASK_NOYIELD

text \<open>
  \<open>dart_thread_t\<close>: the fields the scheduler reads and writes.  \<open>th_queue\<close> is the array
  of hot slots (\<open>THREAD_QUEUE_SIZE\<close> entries).
\<close>

record dart_thread_t =
  th_thread_id :: int
  th_numa_id :: nat
  th_current_task :: "nat option"
  th_next_task :: "nat option"
  th_delay :: int
  th_queue :: "nat option list"
  th_last_steal_thread_id :: nat
  th_is_utility_thread :: bool
  th_last_progress_ts :: int
  th_taskcntr :: nat

text \<open>
  The process state: the remaining fields of \<open>dart_task_t\<close> that steer the scheduler
  (the payload, the description and the dependency lists belong to the dependency engine
  and are left out), and the file-level statics.  A phase is an integer; \<open>None\<close> stands
  for \<open>DART_PHASE_ANY\<close>.

  Modelled from the spec: the cancellation flag and the phase bookkeeping live in
  cancellation.c and phase.c, which are not part of the sources.  The spec describes
  cancellation as a process-wide flag, and a phase as runnable when the runtime has
  declared it so, with a count of tasks per phase: \<open>cancellation_requested\<close>,
  \<open>phase_current\<close>, \<open>phase_runnable\<close> and \<open>phase_num_tasks\<close>.  \<open>local_deferred_tasks\<close> is the
  queue of deferred tasks the dependency engine declares.
\<close>

record tasking = tq_state +
  t_flags :: "nat \<Rightarrow> dart_task_flag_t set"
  t_state :: "nat \<Rightarrow> dart_task_state_t"
  t_parent :: "nat \<Rightarrow> nat option"
  t_num_children :: "nat \<Rightarrow> int"
  t_wait_handle :: "nat \<Rightarrow> nat option"
  t_taskctx :: "nat \<Rightarrow> nat option"
  t_phase :: "nat \<Rightarrow> int option"
  t_fn :: "nat \<Rightarrow> nat option"
  t_instance :: "nat \<Rightarrow> nat"
  t_unresolved_deps :: "nat \<Rightarrow> int"
  t_unresolved_remote_deps :: "nat \<Rightarrow> int"
  t_numaptr :: "nat \<Rightarrow> nat option"
  t_owner :: "nat \<Rightarrow> int"
  threads_running :: bool
  cancellation_requested :: bool
  num_threads :: nat
  num_numa_nodes :: nat
  respect_numa :: bool
  num_units :: nat
  thread_pool :: "dart_thread_t option list"
  root_task :: nat
  local_deferred_tasks :: dart_taskqueue_t
  task_free_lists :: "nat list list"
  phase_current :: int
  phase_runnable :: "int \<Rightarrow> bool"
  phase_num_tasks :: "int \<Rightarrow> nat"

text \<open>
  The calling thread (\<open>__tpd\<close>) is given by its index \<open>self\<close> in \<open>thread_pool\<close>; an index
  without a thread object is a \<open>NULL\<close> pointer.
\<close>

definition get_thread :: "'a tasking_scheme \<Rightarrow> nat \<Rightarrow> dart_thread_t option" where
  "get_thread s i = (if i < length (thread_pool s) then thread_pool s ! i else None)"

definition set_thread :: "nat \<Rightarrow> dart_thread_t \<Rightarrow> 'a tasking_scheme \<Rightarrow> 'a tasking_scheme" where
  "set_thread i th s = s\<lparr> thread_pool := (thread_pool s)[i := Some th] \<rparr>"

text \<open>
  Modelled from the spec: \<open>dart_tasking_datadeps_is_runnable\<close> is part of the dependency
  engine (not in the sources).  By the spec both counters of unresolved dependencies
  must be 0 for a task to be runnable.
\<close>

definition dart_tasking_datadeps_is_runnable :: "'a tasking_scheme \<Rightarrow> nat \<Rightarrow> bool" where
  "dart_tasking_datadeps_is_runnable s t =
     (t_unresolved_deps s t = 0 \<and> t_unresolved_remote_deps s t = 0)"

text \<open>
  Modelled from the spec: \<open>dart__tasking__phase_is_runnable\<close> (phase.c, not in the
  sources).  A phase is runnable when it has been declared so; \<open>DART_PHASE_ANY\<close> is not
  tied to a phase.
\<close>

definition dart__tasking__phase_is_runnable :: "'a tasking_scheme \<Rightarrow> int option \<Rightarrow> bool" where
  "dart__tasking__phase_is_runnable s ph =
     (case ph of None \<Rightarrow> True | Some p \<Rightarrow> phase_runnable s p)"

subsection \<open>Finding the next task\<close>

text \<open>
  \<open>next_task_thread\<close> scans the hot slots front to back, \<open>next_task_thread_back\<close> back to
  front; the first task found is taken out with a compare-and-swap, which succeeds when
  no other thread interferes.
\<close>

fun take_first_slot :: "nat option list \<Rightarrow> nat option \<times> nat option list" where
  "take_first_slot [] = (None, [])"
| "take_first_slot (x # xs) =
     (case x of
        Some t \<Rightarrow> (Some t, None # xs)
      | None \<Rightarrow> (case take_first_slot xs of (r, ys) \<Rightarrow> (r, None # ys)))"

definition next_task_thread :: "dart_thread_t \<Rightarrow> nat option \<times> dart_thread_t" where
  "next_task_thread th =
     (case take_first_slot (th_queue th) of (task, q) \<Rightarrow> (task, th\<lparr> th_queue := q \<rparr>))"

definition next_task_thread_back :: "dart_thread_t \<Rightarrow> nat option \<times> dart_thread_t" where
  "next_task_thread_back th =
     (case take_first_slot (rev (th_queue th)) of (task, q) \<Rightarrow> (task, th\<lparr> th_queue := rev q \<rparr>))"

text \<open>
  The targets of a stealing loop, \<open>(thread_id + 1) % num_threads\<close> and onwards around
  the ring until the thread itself is reached.
\<close>

definition steal_targets :: "nat \<Rightarrow> nat \<Rightarrow> nat list" where
  "steal_targets tid n = map (\<lambda>k. (tid + 1 + k) mod n) [0 ..< n - 1]"

text \<open>
  One stealing loop of \<open>next_task\<close>: \<open>same\<close> selects the victims on the same NUMA node
  (first loop) or on another one (last loop).  The result is the task, the victim it
  was taken from, and the thread pool.
\<close>

fun steal_loop ::
  "bool \<Rightarrow> nat \<Rightarrow> nat list \<Rightarrow> dart_thread_t option list
     \<Rightarrow> nat option \<times> nat option \<times> dart_thread_t option list" where
  "steal_loop same my_numa [] pool = (None, None, pool)"
| "steal_loop same my_numa (target # rest) pool =
     (case (if target < length pool then pool ! target else None) of
        None \<Rightarrow> steal_loop same my_numa rest pool
      | Some tt \<Rightarrow>
          if (th_numa_id tt = my_numa) = same then
            (case next_task_thread_back tt of
               (Some task, tt1) \<Rightarrow> (Some task, Some target, pool[target := Some tt1])
             | (None, tt1) \<Rightarrow> steal_loop same my_numa rest pool)
          else steal_loop same my_numa rest pool)"

text \<open>
  The \<open>do ... while (task == NULL && i < num_numa_nodes)\<close> loop over the NUMA queues,
  as a recursion over the queue indices it visits.
\<close>

fun pop_numa_queues ::
  "nat list \<Rightarrow> 'a tasking_scheme \<Rightarrow> (nat option \<times> 'a tasking_scheme) option" where
  "pop_numa_queues [] s = Some (None, s)"
| "pop_numa_queues (q # qs) s =
     (case dart_tasking_taskqueue_pop q s of
        None \<Rightarrow> None
      | Some (Some t, s1) \<Rightarrow> Some (Some t, s1)
      | Some (None, s1) \<Rightarrow> pop_numa_queues qs s1)"

text \<open>
  \<open>next_task\<close>.  \<open>thread_pool\<close> holds \<open>num_threads\<close> entries.  For a thread id outside
  \<open>0 ..< num_threads\<close> the stealing loop has no end unless it finds a task, and with no
  NUMA node the queue index is a division by zero: no result in both cases.
\<close>

definition next_task :: "nat \<Rightarrow> 'a tasking_scheme \<Rightarrow> (nat option \<times> 'a tasking_scheme) option" where
  "next_task self s =
     (case get_thread s self of
        None \<Rightarrow> None
      | Some th \<Rightarrow>
          (case (if th_next_task th \<noteq> None
                 then (th_next_task th, th\<lparr> th_next_task := None \<rparr>)
                 else next_task_thread th) of
             (Some task, th1) \<Rightarrow> Some (Some task, set_thread self th1 s)
           | (None, th1) \<Rightarrow>
               (let s1 = set_thread self th1 s in
                case get_thread s1 (th_last_steal_thread_id th1) of
                  None \<Rightarrow> None
                | Some victim \<Rightarrow>
                    (case next_task_thread_back victim of
                       (Some task, v1) \<Rightarrow>
                         Some (Some task, set_thread (th_last_steal_thread_id th1) v1 s1)
                     | (None, v1) \<Rightarrow>
                         if \<not> (0 \<le> th_thread_id th1 \<and> th_thread_id th1 < int (num_threads s1))
                         then None
                         else
                           (case steal_loop True (th_numa_id th1)
                                   (steal_targets (nat (th_thread_id th1)) (num_threads s1))
                                   (thread_pool s1) of
                              (Some task, Some target, pool) \<Rightarrow>
                                Some (Some task,
                                      set_thread self (th1\<lparr> th_last_steal_thread_id := target \<rparr>)
                                        (s1\<lparr> thread_pool := pool \<rparr>))
                            | _ \<Rightarrow>
                                if num_numa_nodes s1 = 0 then None else
                                (case pop_numa_queues
                                        (map (\<lambda>i. (th_numa_id th1 + i) mod num_numa_nodes s1)
                                             [0 ..< num_numa_nodes s1]) s1 of
                                   None \<Rightarrow> None
                                 | Some (Some task, s2) \<Rightarrow> Some (Some task, s2)
                                 | Some (None, s2) \<Rightarrow>
                                     if num_numa_nodes s2 > 1 then
                                       (case steal_loop False (th_numa_id th1)
                                               (steal_targets (nat (th_thread_id th1)) (num_threads s2))
                                               (thread_pool s2) of
                                          (Some task, Some target, pool) \<Rightarrow>
                                            Some (Some task,
                                                  set_thread self
                                                    (th1\<lparr> th_last_steal_thread_id := target \<rparr>)
                                                    (s2\<lparr> thread_pool := pool \<rparr>))
                                        | _ \<Rightarrow> Some (None, s2))
                                     else Some (None, s2)))))))"

subsection \<open>Yielding\<close>

text \<open>
  The interval \<open>REMOTE_PROGRESS_INTERVAL_USEC\<close> is the \<open>double\<close> constant \<open>1E4\<close>, so the test
  \<open>last_progress_ts + REMOTE_PROGRESS_INTERVAL_USEC >= current_time_us()\<close> is evaluated in
  \<open>double\<close>.  All values involved are integers, and \<open>double_of_int\<close> is the integer that
  the conversion of an integer to \<open>double\<close> yields (binary64: 53 significant bits, round
  to nearest, ties to even; 64-bit integers do not overflow).  \<open>bit_length\<close> is the number
  of significant bits of a positive integer.
\<close>

function bit_length :: "int \<Rightarrow> nat" where
  "bit_length n = (if n \<le> 0 then 0 else Suc (bit_length (n div 2)))"
  by pat_completeness auto

termination
  by (relation "measure nat") auto

declare bit_length.simps [simp del]

definition double_of_int :: "int \<Rightarrow> int" where
  "double_of_int x =
     (let a = \<bar>x\<bar>;
          n = bit_length a in
      if n \<le> 53 then x
      else
        (let e = n - 53;
             q = a div 2 ^ e;
             r = a mod 2 ^ e;
             h = 2 ^ (e - 1);
             q1 = (if r > h \<or> (r = h \<and> odd q) then q + 1 else q)
         in sgn x * (q1 * 2 ^ e)))"

text \<open>
  \<open>REMOTE_PROGRESS_INTERVAL_USEC\<close> and \<open>remote_progress\<close>.  The progress function of the
  remote-message engine (\<open>dart_tasking_remote_progress\<close>, not in the sources) is the
  argument \<open>progress\<close>, the clock the argument \<open>now\<close>.
\<close>

definition REMOTE_PROGRESS_INTERVAL_USEC :: int where
  "REMOTE_PROGRESS_INTERVAL_USEC = 10000"

definition remote_progress ::
  "('a tasking_scheme \<Rightarrow> 'a tasking_scheme) \<Rightarrow> int \<Rightarrow> nat \<Rightarrow> bool \<Rightarrow> 'a tasking_scheme
     \<Rightarrow> 'a tasking_scheme option" where
  "remote_progress progress now self force s =
     (if num_units s = 1 then Some s
      else case get_thread s self of
             None \<Rightarrow> None
           | Some th \<Rightarrow>
               if force
                  \<or> double_of_int (double_of_int (th_last_progress_ts th)
                                      + REMOTE_PROGRESS_INTERVAL_USEC)
                      \<ge> double_of_int now then
                 (let s1 = progress s in
                  case get_thread s1 self of
                    None \<Rightarrow> None
                  | Some th1 \<Rightarrow> Some (set_thread self (th1\<lparr> th_last_progress_ts := now \<rparr>) s1))
               else Some s)"

text \<open>
  \<open>requeue_task\<close>: the queue of the calling thread's NUMA node, and the position the
  thread's \<open>delay\<close> selects.  A positive \<open>int\<close> converts to the same \<open>unsigned int\<close>.
\<close>

definition requeue_task :: "nat \<Rightarrow> nat \<Rightarrow> 'a tasking_scheme \<Rightarrow> 'a tasking_scheme option" where
  "requeue_task self task s =
     (case get_thread s self of
        None \<Rightarrow> None
      | Some thread \<Rightarrow>
          (let q = th_numa_id thread;
               delay = th_delay thread in
           if delay = 0 then dart_tasking_taskqueue_push q task s
           else if delay > 0 then dart_tasking_taskqueue_insert q task (nat delay) s
           else dart_tasking_taskqueue_pushback q task s))"

text \<open>
  How a call of \<open>dart__tasking__yield\<close> proceeds.  The function either returns a code, or
  control leaves it: through \<open>dart__tasking__abort_current_task\<close> (a \<open>longjmp\<close> to the
  cancel frame of the task), through \<open>dart__tasking__context_swap\<close> into the worker's
  return context (the task is resumed later and then returns what the swap returns
  or \<open>DART_OK\<close>), or, in the root task, through \<open>dart__tasking__handle_task_internal\<close>,
  which runs the task found and after which the function returns \<open>DART_OK\<close>.
\<close>

datatype yield_outcome =
  Yield_returned dart_ret_t
  | Yield_aborted
  | Yield_swapped_out
  | Yield_ran_task nat

text \<open>
  \<open>dart__tasking__yield\<close> (with \<open>USE_UCONTEXT\<close>) up to the point where it returns or
  control leaves it.  The assertion \<open>thread->next_task == NULL\<close> fails with \<open>None\<close>.

  Modelled from the spec: \<open>dart__tasking__abort_current_task\<close> (cancellation.c, not in
  the sources) leaves the task by \<open>longjmp\<close>; it is the outcome \<open>Yield_aborted\<close>.
\<close>

definition dart__tasking__yield ::
  "('a tasking_scheme \<Rightarrow> 'a tasking_scheme) \<Rightarrow> int \<Rightarrow> nat \<Rightarrow> int \<Rightarrow> 'a tasking_scheme
     \<Rightarrow> (yield_outcome \<times> 'a tasking_scheme) option" where
  "dart__tasking__yield progress now self delay s =
     (if \<not> threads_running s then Some (Yield_returned DART_OK, s)
      else
        (case get_thread s self of
           None \<Rightarrow> None
         | Some thread \<Rightarrow>
             if cancellation_requested s then Some (Yield_aborted, s)
             else
             (case th_current_task thread of
                None \<Rightarrow> None
              | Some current_task \<Rightarrow>
                  if DART_TASK_INLINE \<in> t_flags s current_task
                  then Some (Yield_returned DART_ERR_INVAL, s)
                  else if t_state s current_task = DART_TASK_BLOCKED
                  then Some (Yield_swapped_out, s)
                  else
                    (case (case next_task self s of
                             None \<Rightarrow> None
                           | Some (Some n, s1) \<Rightarrow> Some (Some n, s1)
                           | Some (None, s1) \<Rightarrow>
                               (case remote_progress progress now self True s1 of
                                  None \<Rightarrow> None
                                | Some s2 \<Rightarrow> next_task self s2)) of
                       None \<Rightarrow> None
                     | Some (None, s3) \<Rightarrow> Some (Yield_returned DART_OK, s3)
                     | Some (Some next, s3) \<Rightarrow>
                         (case get_thread s3 self of
                            None \<Rightarrow> None
                          | Some thread3 \<Rightarrow>
                              (let s4 = set_thread self (thread3\<lparr> th_delay := delay \<rparr>) s3 in
                               if current_task = root_task s4 then
                                 (if th_thread_id thread3 = 0 then Some (Yield_ran_task next, s4)
                                  else None)
                               else
                                 (let s5 = s4\<lparr> t_state := (t_state s4)(current_task :=
                                             (if t_wait_handle s4 current_task = None
                                              then DART_TASK_SUSPENDED else DART_TASK_BLOCKED)) \<rparr> in
                                  case get_thread s5 self of
                                    None \<Rightarrow> None
                                  | Some thread5 \<Rightarrow>
                                      if th_next_task thread5 \<noteq> None then None
                                      else Some (Yield_swapped_out,
                                                 set_thread self
                                                   (thread5\<lparr> th_next_task := Some next \<rparr>) s5))))))))"

text \<open>
  What \<open>handle_task\<close> does with the task it comes back to when \<open>invoke_task\<close> returns:
  a suspended task is requeued.  The other branches hand the task to the wait engine or
  finish it; they call into code outside the sources and are named only.
\<close>

datatype return_action = Wait_enqueue_detached | Wait_enqueue_blocked | Requeued | Finish_task

definition handle_task_returned ::
  "nat \<Rightarrow> 'a tasking_scheme \<Rightarrow> (return_action \<times> 'a tasking_scheme) option" where
  "handle_task_returned self s =
     (case get_thread s self of
        None \<Rightarrow> None
      | Some thread \<Rightarrow>
          (case th_current_task thread of
             None \<Rightarrow> None
           | Some prev_task \<Rightarrow>
               if t_state s prev_task = DART_TASK_DETACHED then Some (Wait_enqueue_detached, s)
               else if t_state s prev_task = DART_TASK_BLOCKED then Some (Wait_enqueue_blocked, s)
               else if t_state s prev_task = DART_TASK_SUSPENDED
               then map_option (Pair Requeued) (requeue_task self prev_task s)
               else Some (Finish_task, s)))"

subsection \<open>Creating tasks\<close>

text \<open>
  The functions of other modules that task creation calls; none of them is part of the
  sources, so they are arguments: the dependency engine
  (\<open>dart_tasking_datadeps_handle_task\<close>), cancellation of one task
  (\<open>dart__tasking__cancel_task\<close>), the remote engine taking over a communication task
  (\<open>dart_tasking_remote_handle_comm_task\<close>, which reports whether it enqueued the task),
  and the NUMA node of an address (\<open>dart__tasking__affinity_ptr_numa_node\<close>).
  \<open>env_handle_inline_task\<close> stands for \<open>handle_inline_task\<close>, which runs the action of the
  task on the calling thread and then hands the task to the wait engine or to the
  dependency engine; the action need not return.
\<close>

record 'st tasking_env =
  env_datadeps_handle_task :: "nat \<Rightarrow> dart_task_dep_t list \<Rightarrow> 'st \<Rightarrow> 'st"
  env_cancel_task :: "nat \<Rightarrow> 'st \<Rightarrow> 'st"
  env_remote_handle_comm_task :: "nat \<Rightarrow> 'st \<Rightarrow> bool \<times> 'st"
  env_affinity_ptr_numa_node :: "nat \<Rightarrow> int"
  env_handle_inline_task :: "nat \<Rightarrow> nat \<Rightarrow> 'st \<Rightarrow> 'st option"

text \<open>
  \<open>start_threads\<close> creates the worker threads, which fill their own entries of
  \<open>thread_pool\<close> as they start; the caller sees the flag \<open>threads_running\<close> set.  The
  function asserts that the threads are not running yet.
\<close>

definition start_threads :: "'a tasking_scheme \<Rightarrow> 'a tasking_scheme option" where
  "start_threads s = (if threads_running s then None else Some (s\<lparr> threads_running := True \<rparr>))"

definition dart__tasking__thread_num :: "'a tasking_scheme \<Rightarrow> nat \<Rightarrow> int" where
  "dart__tasking__thread_num s self =
     (case get_thread s self of Some t \<Rightarrow> th_thread_id t | None \<Rightarrow> 0)"

text \<open>
  \<open>allocate_task\<close> (memory pool variant): a task from the free list of the calling
  thread, or else the next object of the thread's task pool, whose address is the
  argument \<open>pool_task\<close>.
\<close>

definition allocate_task :: "nat \<Rightarrow> nat \<Rightarrow> 'a tasking_scheme \<Rightarrow> (nat \<times> 'a tasking_scheme) option" where
  "allocate_task pool_task self s =
     (let tn = dart__tasking__thread_num s self in
      if tn < 0 \<or> nat tn \<ge> length (task_free_lists s) then None
      else
        (case task_free_lists s ! nat tn of
           task # rest \<Rightarrow>
             Some (task, s\<lparr> task_free_lists := (task_free_lists s)[nat tn := rest] \<rparr>)
         | [] \<Rightarrow> Some (pool_task, s\<lparr> t_owner := (t_owner s)(pool_task := tn) \<rparr>)))"

text \<open>
  \<open>create_task\<close>.  \<open>var_space_size\<close> is the room for inline data in the task object
  (\<open>DART_TASK_STRUCT_SIZE - offsetof(dart_task_t, inline_data)\<close>).
\<close>

definition create_task ::
  "nat \<Rightarrow> nat \<Rightarrow> nat option \<Rightarrow> nat \<Rightarrow> nat \<Rightarrow> dart_task_prio_t \<Rightarrow> 'a tasking_scheme
     \<Rightarrow> (nat \<times> 'a tasking_scheme) option" where
  "create_task pool_task self task_fn data_size var_space_size prio s =
     (case allocate_task pool_task self s of
        None \<Rightarrow> None
      | Some (task, s1) \<Rightarrow>
          (case get_thread s1 self of
             None \<Rightarrow> None
           | Some thread \<Rightarrow>
               (case th_current_task thread of
                  None \<Rightarrow> None
                | Some parent \<Rightarrow>
                    (let s2 = s1\<lparr> t_prev := (t_prev s1)(task := None),
                                   t_flags := (t_flags s1)(task :=
                                      (if data_size \<noteq> 0 \<and> data_size > var_space_size
                                       then {DART_TASK_DATA_ALLOCATED} else {})),
                                   t_state := (t_state s1)(task := DART_TASK_NASCENT),
                                   t_parent := (t_parent s1)(task := Some parent),
                                   t_num_children := (t_num_children s1)(task := 0),
                                   t_wait_handle := (t_wait_handle s1)(task := None),
                                   t_taskctx := (t_taskctx s1)(task := None),
                                   t_fn := (t_fn s1)(task := task_fn),
                                   t_instance := (t_instance s1)(task := t_instance s1 task + 1),
                                   t_unresolved_deps := (t_unresolved_deps s1)(task := 0),
                                   t_unresolved_remote_deps :=
                                      (t_unresolved_remote_deps s1)(task := 0),
                                   t_numaptr := (t_numaptr s1)(task := None) \<rparr>;
                         s3 = (if t_state s2 parent = DART_TASK_ROOT
                               then s2\<lparr> t_phase := (t_phase s2)(task := Some (phase_current s2)),
                                        phase_num_tasks := (phase_num_tasks s2)
                                          (phase_current s2 :=
                                             phase_num_tasks s2 (phase_current s2) + 1) \<rparr>
                               else s2\<lparr> t_phase := (t_phase s2)(task := None) \<rparr>);
                         s4 = (case prio of
                                 DART_PRIO_PARENT \<Rightarrow>
                                   s3\<lparr> t_prio := (t_prio s3)(task := t_prio s3 parent) \<rparr>
                               | DART_PRIO_INLINE \<Rightarrow>
                                   s3\<lparr> t_prio := (t_prio s3)(task := DART_PRIO_HIGH),
                                       t_flags := (t_flags s3)(task := t_flags s3 task
                                          \<union> {DART_TASK_INLINE, DART_TASK_IMMEDIATE}) \<rparr>
                               | _ \<Rightarrow> s3\<lparr> t_prio := (t_prio s3)(task := prio) \<rparr>)
                     in Some (task, s4)))))"

text \<open>Putting a task into the first free hot slot of a thread, if there is one.\<close>

fun put_first_free :: "nat \<Rightarrow> nat option list \<Rightarrow> nat option list option" where
  "put_first_free t [] = None"
| "put_first_free t (x # xs) =
     (case x of
        None \<Rightarrow> Some (Some t # xs)
      | Some u \<Rightarrow> map_option ((#) x) (put_first_free t xs))"

text \<open>\<open>dart__tasking__enqueue_runnable\<close>.\<close>

definition dart__tasking__enqueue_runnable ::
  "'a tasking_scheme tasking_env \<Rightarrow> nat \<Rightarrow> nat \<Rightarrow> 'a tasking_scheme \<Rightarrow> 'a tasking_scheme option" where
  "dart__tasking__enqueue_runnable env self task s =
     (if cancellation_requested s then Some (env_cancel_task env task s)
      else if t_state s task = DART_TASK_DEFERRED then Some s
      else
        (case (if t_state s task = DART_TASK_CREATED then
                 (if dart_tasking_datadeps_is_runnable s task
                  then (True, s\<lparr> t_state := (t_state s)(task := DART_TASK_QUEUED) \<rparr>)
                  else (False, s))
               else if t_state s task = DART_TASK_SUSPENDED then (True, s)
               else (False, s)) of
           (queuable, s1) \<Rightarrow>
             if \<not> queuable then Some s1
             else
               (case (if t_parent s1 task = Some (root_task s1)
                         \<and> \<not> dart__tasking__phase_is_runnable s1 (t_phase s1 task)
                      then
                        (if t_state s1 task = DART_TASK_CREATED \<or> t_state s1 task = DART_TASK_QUEUED
                         then
                           (let s2 = s1\<lparr> t_state := (t_state s1)(task := DART_TASK_DEFERRED) \<rparr> in
                            case dart_tasking_taskqueue_pushback_unsafe s2
                                   (local_deferred_tasks s2) task of
                              None \<Rightarrow> None
                            | Some (s3, q) \<Rightarrow> Some (True, s3\<lparr> local_deferred_tasks := q \<rparr>))
                         else Some (False, s1))
                      else Some (False, s1)) of
                  None \<Rightarrow> None
                | Some (enqueued, s3) \<Rightarrow>
                    (case (if \<not> enqueued \<and> DART_TASK_IS_COMMTASK \<in> t_flags s3 task
                           then env_remote_handle_comm_task env task s3
                           else (enqueued, s3)) of
                       (enqueued4, s4) \<Rightarrow>
                         if enqueued4 then Some s4
                         else if DART_TASK_IMMEDIATE \<in> t_flags s4 task
                         then env_handle_inline_task env self task s4
                         else
                           (case get_thread s4 self of
                              None \<Rightarrow> None
                            | Some thread \<Rightarrow>
                                (let numa_node =
                                       (case t_numaptr s4 task of
                                          Some p \<Rightarrow> if respect_numa s4
                                                    then env_affinity_ptr_numa_node env p else 0
                                        | None \<Rightarrow> 0) in
                                 case (if \<not> th_is_utility_thread thread
                                          \<and> numa_node = int (th_numa_id thread)
                                       then put_first_free task (th_queue thread) else None) of
                                   Some slots \<Rightarrow>
                                     Some (set_thread self (thread\<lparr> th_queue := slots \<rparr>) s4)
                                 | None \<Rightarrow>
                                     if numa_node < 0 then None
                                     else dart_tasking_taskqueue_push (nat numa_node) task s4))))))"

text \<open>
  \<open>dart__tasking__create_task\<close>.  The result is the return code, the task reference
  written to \<open>*ref\<close> (when the caller passes a \<open>ref\<close>, argument \<open>want_ref\<close>), and the state.
\<close>

definition dart__tasking__create_task ::
  "'a tasking_scheme tasking_env \<Rightarrow> nat \<Rightarrow> nat \<Rightarrow> nat option \<Rightarrow> nat \<Rightarrow> nat \<Rightarrow> dart_task_dep_t list
     \<Rightarrow> dart_task_prio_t \<Rightarrow> dart_create_flag_t set \<Rightarrow> bool \<Rightarrow> 'a tasking_scheme
     \<Rightarrow> (dart_ret_t \<times> nat option \<times> 'a tasking_scheme) option" where
  "dart__tasking__create_task env pool_task self task_fn data_size var_space_size deps prio flags
       want_ref s =
     (if cancellation_requested s then Some (DART_OK, None, s)
      else
        (case (if \<not> threads_running s then start_threads s else Some s) of
           None \<Rightarrow> None
         | Some s0 \<Rightarrow>
             (case create_task pool_task self task_fn data_size var_space_size prio s0 of
                None \<Rightarrow> None
              | Some (task, s1) \<Rightarrow>
                  (let s2 = (if want_ref
                             then s1\<lparr> t_flags := (t_flags s1)(task :=
                                         insert DART_TASK_HAS_REF (t_flags s1 task)) \<rparr>
                             else s1);
                       s3 = (if DART_TASK_NOYIELD \<in> flags
                             then s2\<lparr> t_flags := (t_flags s2)(task :=
                                         insert DART_TASK_INLINE (t_flags s2 task)) \<rparr>
                             else s2) in
                   case t_parent s3 task of
                     None \<Rightarrow> None
                   | Some parent \<Rightarrow>
                       (let s4 = s3\<lparr> t_num_children := (t_num_children s3)
                                       (parent := t_num_children s3 parent + 1) \<rparr>;
                            s5 = env_datadeps_handle_task env task deps s4;
                            s6 = s5\<lparr> t_state := (t_state s5)(task := DART_TASK_CREATED) \<rparr>;
                            ref = (if want_ref then Some task else None) in
                        if dart_tasking_datadeps_is_runnable s6 task
                        then map_option (\<lambda>s7. (DART_OK, ref, s7))
                               (dart__tasking__enqueue_runnable env self task s6)
                        else Some (DART_OK, ref, s6))))))"

subsection \<open>An example state of the scheduler\<close>

text \<open>
  One NUMA node and one thread, the master thread, which runs task 9 and holds task 4
  in its first hot slot.  The queue of the node holds the tasks 1, 2 and 3, in this
  order, in its low-priority deque.  Task 0 is the root task, and phase 0 is the only
  phase that is runnable.
\<close>

definition example_thread :: dart_thread_t where
  "example_thread =
     \<lparr> th_thread_id = 0, th_numa_id = 0, th_current_task = Some 9, th_next_task = None,
       th_delay = 0, th_queue = [Some 4, None], th_last_steal_thread_id = 0,
       th_is_utility_thread = False, th_last_progress_ts = 0, th_taskcntr = 0 \<rparr>"

definition example_tasking :: tasking where
  "example_tasking =
     \<lparr> t_next = (\<lambda>t. if t = 1 then Some 2 else if t = 2 then Some 3 else None),
       t_prev = (\<lambda>t. if t = 2 then Some 1 else if t = 3 then Some 2 else None),
       t_prio = (\<lambda>t. DART_PRIO_DEFAULT),
       task_queue = [\<lparr> lowprio = \<lparr> head = Some 1, tail = Some 3 \<rparr>,
                      highprio = \<lparr> head = None, tail = None \<rparr> \<rparr>],
       t_flags = (\<lambda>t. {}),
       t_state = (\<lambda>t. if t = 0 then DART_TASK_ROOT
                      else if t = 9 then DART_TASK_RUNNING else DART_TASK_QUEUED),
       t_parent = (\<lambda>t. if t = 0 then None else Some 0),
       t_num_children = (\<lambda>t. if t = 0 then 5 else 0),
       t_wait_handle = (\<lambda>t. None),
       t_taskctx = (\<lambda>t. if t = 9 then Some 0 else None),
       t_phase = (\<lambda>t. Some 0),
       t_fn = (\<lambda>t. Some 0),
       t_instance = (\<lambda>t. 1),
       t_unresolved_deps = (\<lambda>t. 0),
       t_unresolved_remote_deps = (\<lambda>t. 0),
       t_numaptr = (\<lambda>t. None),
       t_owner = (\<lambda>t. 0),
       threads_running = True,
       cancellation_requested = False,
       num_threads = 1,
       num_numa_nodes = 1,
       respect_numa = False,
       num_units = 1,
       thread_pool = [Some example_thread],
       root_task = 0,
       local_deferred_tasks = dart_tasking_taskqueue_init,
       task_free_lists = [[]],
       phase_current = 0,
       phase_runnable = (\<lambda>p. p \<le> 0),
       phase_num_tasks = (\<lambda>p. 0) \<rparr>"

text \<open>
  Of the two lists of tasks of a queue, high priority first, the one that holds the tasks
  of the priority of task \<open>t\<close>.
\<close>

definition prio_deque :: "(nat \<Rightarrow> dart_task_prio_t) \<Rightarrow> nat \<Rightarrow> nat list \<times> nat list \<Rightarrow> nat list" where
  "prio_deque prio t qc = (if prio t = DART_PRIO_HIGH then fst qc else snd qc)"

text \<open>
  The example state after task 9 has called \<open>yield(1)\<close>: the task is suspended, the
  thread has noted the delay and holds task 4, taken from its hot slot, as its next task.
\<close>

definition example_yielded :: tasking where
  "example_yielded =
     example_tasking\<lparr>
       t_state := (t_state example_tasking)(9 := DART_TASK_SUSPENDED),
       thread_pool := [Some (example_thread\<lparr> th_next_task := Some 4, th_delay := 1,
                                              th_queue := [None, None] \<rparr>)] \<rparr>"

text \<open>
  The task object that \<open>allocate_task\<close> hands out in state \<open>s\<close>: the top of the free list
  of the calling thread, or the next object of the pool.  Used in statements only.
\<close>

definition allocated_task :: "nat \<Rightarrow> nat \<Rightarrow> 'a tasking_scheme \<Rightarrow> nat" where
  "allocated_task pool_task self s =
     (case task_free_lists s ! nat (dart__tasking__thread_num s self) of
        t # rest \<Rightarrow> t
      | [] \<Rightarrow> pool_task)"

text \<open>
  Two more example states, and example callbacks.  In \<open>example_root\<close> the master thread
  runs the root task, and the current phase is phase 1, which is not runnable.  In
  \<open>example_cancelling\<close> a cancellation has been requested.  The callbacks of
  \<open>example_env\<close> do nothing (a task without dependencies, no remote engine).
\<close>

definition example_root :: tasking where
  "example_root =
     example_tasking\<lparr>
       thread_pool := [Some (example_thread\<lparr> th_current_task := Some 0 \<rparr>)],
       phase_current := 1 \<rparr>"

definition example_cancelling :: tasking where
  "example_cancelling = example_tasking\<lparr> cancellation_requested := True \<rparr>"

definition example_env :: "tasking tasking_env" where
  "example_env =
     \<lparr> env_datadeps_handle_task = (\<lambda>t d x. x),
       env_cancel_task = (\<lambda>t x. x),
       env_remote_handle_comm_task = (\<lambda>t x. (False, x)),
       env_affinity_ptr_numa_node = (\<lambda>p. 0),
       env_handle_inline_task = (\<lambda>self t x. Some x) \<rparr>"

section \<open>Properties of the context manager\<close>

subsection \<open>Stack size after initialisation\<close>

text \<open>
  C6 (as stated, refuted).  With a page size of 4096 bytes and \<open>TASKSTACKSIZE=5000\<close> the
  stack size after initialisation is 5000, which is no multiple of the page size; rounding
  up to the page size would give 8192.
\<close>

theorem context_init_not_rounded:
  "task_stack_size (dart__tasking__context_init 4096 (Some 5000) context_globals_initial) = 5000
   \<and> unat (5000 :: size_t) mod unat (4096 :: size_t) \<noteq> 0
   \<and> dart__tasking__context_adjust_size
        (dart__tasking__context_init 4096 (Some 5000) context_globals_initial) 5000 = 8192"
  by (simp add: dart__tasking__context_init_def dart__base__env__size_def
      context_globals_initial_def DEFAULT_TASK_STACK_SIZE_def
      dart__tasking__context_adjust_size_def Let_def)

text \<open>
  C6 (amended).  After initialisation the per-task stack size is 2 MiB when
  \<open>TASKSTACKSIZE\<close> is unset (or negative) and the user-provided byte count otherwise,
  except that a value below the page size is replaced by the page size.  The stack size
  is therefore never below the page size.
\<close>

theorem context_init_stack_size:
  "task_stack_size (dart__tasking__context_init ps env context_globals_initial) =
     (case env of
        None \<Rightarrow> max DEFAULT_TASK_STACK_SIZE ps
      | Some v \<Rightarrow> if - 1 < sint v then max v ps else max DEFAULT_TASK_STACK_SIZE ps)
   \<and> page_size (dart__tasking__context_init ps env context_globals_initial) = ps
   \<and> ps \<le> task_stack_size (dart__tasking__context_init ps env context_globals_initial)"
  by (auto simp add: dart__tasking__context_init_def dart__base__env__size_def
      context_globals_initial_def Let_def max_def split: option.splits)

subsection \<open>Releasing a context\<close>

lemma context_release_general:
  assumes "entries s c = Some e" and "ss_sp e \<noteq> None"
  shows "\<exists>s2. dart__tasking__context_release c s = Some s2
          \<and> ctxlist s2 (owner e) = c # ctxlist s (owner e)
          \<and> (\<forall>t. t \<noteq> owner e \<longrightarrow> ctxlist s2 t = ctxlist s t)
          \<and> entries s2 = entries s \<and> globals s2 = globals s"
  using assms by (simp add: dart__tasking__context_release_def dart__base__stack_push_def)

lemma context_create_owned:
  assumes inv: "ctx_inv s"
      and fresh: "\<forall>p. m = Some p \<longrightarrow> p \<notin> dom (entries s)"
      and cr: "dart__tasking__context_create self f a sz m s = Some (c, s1)"
  shows "\<exists>e. entries s1 c = Some e \<and> owner e = self \<and> ss_sp e \<noteq> None
          \<and> fn e = Some f \<and> arg e = Some a
          \<and> (\<forall>t. c \<notin> set (ctxlist s1 t)) \<and> ctx_inv s1"
proof (cases "ctxlist s self")
  case Nil
  with cr obtain p where p: "m = Some p" and c: "c = p"
    by (auto simp: dart__tasking__context_create_def dart__base__stack_pop_def
        dart__tasking__context_allocate_def Let_def split: option.splits)
  from fresh p have pf: "entries s p = None" by auto
  have notin: "\<forall>t. p \<notin> set (ctxlist s t)"
    using inv pf unfolding ctx_inv_def by fastforce
  from cr Nil p c show ?thesis
    using inv notin
    by (auto simp: dart__tasking__context_create_def dart__base__stack_pop_def
        dart__tasking__context_allocate_def Let_def ctx_inv_def split: option.splits)
next
  case (Cons x rest)
  from inv Cons obtain e where xe: "entries s x = Some e" "owner e = self" "ss_sp e \<noteq> None"
    unfolding ctx_inv_def by (metis list.set_intros(1))
  from inv Cons have dx: "x \<notin> set rest" and dr: "distinct rest"
    unfolding ctx_inv_def by (metis distinct.simps(2))+
  have others: "\<forall>t. t \<noteq> self \<longrightarrow> x \<notin> set (ctxlist s t)"
    using inv xe unfolding ctx_inv_def by fastforce
  from cr Cons xe have c: "c = x"
    and s1: "s1 = s\<lparr> ctxlist := (ctxlist s)(self := rest),
                     entries := (entries s)(x \<mapsto> e\<lparr> fn := Some f, arg := Some a \<rparr>) \<rparr>"
    by (auto simp: dart__tasking__context_create_def dart__base__stack_pop_def Let_def)
  have sub: "\<And>t. set (ctxlist s1 t) \<subseteq> set (ctxlist s t)" "\<And>t. distinct (ctxlist s1 t)"
    using inv Cons dr unfolding s1 ctx_inv_def by auto
  have "ctx_inv s1"
    unfolding ctx_inv_def
  proof (intro allI conjI ballI)
    fix t show "distinct (ctxlist s1 t)" by (rule sub)
  next
    fix t c' assume "c' \<in> set (ctxlist s1 t)"
    with sub have "c' \<in> set (ctxlist s t)" by blast
    with inv obtain e' where "entries s c' = Some e'" "owner e' = t" "ss_sp e' \<noteq> None"
      unfolding ctx_inv_def by blast
    then show "\<exists>e. entries s1 c' = Some e \<and> owner e = t \<and> ss_sp e \<noteq> None"
      using xe unfolding s1 by (cases "c' = x") auto
  qed
  moreover have "\<forall>t. c \<notin> set (ctxlist s1 t)"
    using dx others unfolding c s1 by auto
  ultimately show ?thesis using xe unfolding c s1 by simp
qed

text \<open>
  C7.  A context obtained from \<open>context_create\<close> by thread \<open>self\<close> is recorded as owned by
  \<open>self\<close> and sits on no free list while it is in use.  Releasing it in any later state
  \<open>s'\<close> in which the entry still carries that owner pushes it onto the free list of
  \<open>self\<close>, leaves the free list of every other thread (hence of a different caller)
  untouched, and adds exactly one occurrence of the context to the owner's list.
\<close>

theorem context_release_to_owner:
  assumes inv: "ctx_inv s"
      and fresh: "\<forall>p. m = Some p \<longrightarrow> p \<notin> dom (entries s)"
      and cr: "dart__tasking__context_create self f a sz m s = Some (c, s1)"
      and later: "entries s' c = Some e'" "owner e' = owner (the (entries s1 c))"
                 "ss_sp e' \<noteq> None"
  shows "owner (the (entries s1 c)) = self
         \<and> (\<forall>t. c \<notin> set (ctxlist s1 t))
         \<and> (\<exists>s2. dart__tasking__context_release c s' = Some s2
                \<and> ctxlist s2 self = c # ctxlist s' self
                \<and> (\<forall>t. t \<noteq> self \<longrightarrow> ctxlist s2 t = ctxlist s' t)
                \<and> count_list (ctxlist s2 self) c = Suc (count_list (ctxlist s' self) c))"
proof -
  from context_create_owned [OF inv fresh cr]
  obtain e where e: "entries s1 c = Some e" "owner e = self" "\<forall>t. c \<notin> set (ctxlist s1 t)"
    by blast
  from later e have o: "owner e' = self" by simp
  from context_release_general [OF later(1) later(3)] o
  obtain s2 where "dart__tasking__context_release c s' = Some s2"
    "ctxlist s2 self = c # ctxlist s' self"
    "\<forall>t. t \<noteq> self \<longrightarrow> ctxlist s2 t = ctxlist s' t"
    by auto
  with e show ?thesis by auto
qed

theorem context_release_to_owner_witness:
  "dart__tasking__context_create 0 7 8 64 (Some 4096) context_state_initial \<noteq> None
   \<and> (\<exists>s1 s2. dart__tasking__context_create 0 7 8 64 (Some 4096) context_state_initial
                 = Some (4096, s1)
        \<and> dart__tasking__context_release 4096 s1 = Some s2
        \<and> ctxlist s2 0 = 4096 # ctxlist s1 0
        \<and> (\<forall>t. t \<noteq> 0 \<longrightarrow> ctxlist s2 t = ctxlist s1 t))"
proof -
  have inv: "ctx_inv context_state_initial"
    by (simp add: ctx_inv_def context_state_initial_def)
  have fresh: "\<forall>p. Some (4096::nat) = Some p \<longrightarrow> p \<notin> dom (entries context_state_initial)"
    by (simp add: context_state_initial_def)
  obtain s1 where cr:
    "dart__tasking__context_create 0 7 8 64 (Some 4096) context_state_initial = Some (4096, s1)"
    by (simp add: dart__tasking__context_create_def dart__base__stack_pop_def
        dart__tasking__context_allocate_def context_state_initial_def Let_def)
  obtain e where e: "entries s1 4096 = Some e" "ss_sp e \<noteq> None"
    using context_create_owned [OF inv fresh cr] by blast
  from context_release_to_owner [OF inv fresh cr e(1) _ e(2)] e(1) cr
  show ?thesis by auto
qed

section \<open>Properties of the copy-in buffers\<close>

lemma find_mem_pool_from_Some:
  "find_mem_pool_from ph ps sz = Some (Some p) \<Longrightarrow> p \<in> set ps \<and> (\<exists>r. ph p = Some r \<and> size r = sz)"
  by (induction ps) (auto split: option.splits if_splits)

lemma find_mem_pool_from_defined:
  "\<forall>p \<in> set ps. ph p \<noteq> None \<Longrightarrow> \<exists>res. find_mem_pool_from ph ps sz = Some res"
  by (induction ps) (auto split: option.splits)

lemma find_mem_pool_from_cong:
  "\<forall>p \<in> set ps. map_option size (ph' p) = map_option size (ph p) \<Longrightarrow>
   find_mem_pool_from ph' ps sz = find_mem_pool_from ph ps sz"
proof (induction ps)
  case Nil then show ?case by simp
next
  case (Cons a ps)
  then have a: "map_option size (ph' a) = map_option size (ph a)" by simp
  from Cons have ih: "find_mem_pool_from ph' ps sz = find_mem_pool_from ph ps sz" by simp
  show ?case
  proof (cases "ph a")
    case None with a show ?thesis by simp
  next
    case (Some r)
    with a obtain r' where "ph' a = Some r'" "size r' = size r" by auto
    with Some ih show ?thesis by simp
  qed
qed

lemma allocate_from_mempool_exact:
  assumes inv: "mp_inv hdr s"
      and mp: "malloc_pool = Some np" "np \<notin> dom (pool_heap s)"
      and me: "malloc_elem = Some ne" "ne \<notin> dom (elem_heap s)"
  shows "\<exists>buf s1 p r0 r1 x. allocate_from_mempool hdr malloc_pool malloc_elem sz s = Some (buf, s1)
          \<and> hdr \<le> buf
          \<and> (case find_mem_pool s sz of
                Some (Some q) \<Rightarrow> p = q \<and> pool_heap s q = Some r0 \<and> mem_pool s1 = mem_pool s
              | _ \<Rightarrow> p = np \<and> r0 = \<lparr> size = sz, elems = [] \<rparr> \<and> mem_pool s1 = np # mem_pool s)
          \<and> size r0 = sz
          \<and> (case elems r0 of
                e # rest \<Rightarrow> buf = e + hdr \<and> r1 = r0\<lparr> elems := rest \<rparr> \<and> elem_heap s1 = elem_heap s
              | [] \<Rightarrow> buf = ne + hdr \<and> r1 = r0
                      \<and> elem_heap s1 = (elem_heap s)(ne \<mapsto>
                            \<lparr> mem = ne + hdr, magic = MEMPOOL_MAGIC_NUM, mpool = p \<rparr>))
          \<and> pool_heap s1 = (pool_heap s)(p \<mapsto> r1)
          \<and> find_mem_pool s1 sz = Some (Some p) \<and> pool_heap s1 p = Some r1 \<and> size r1 = sz
          \<and> elem_heap s1 (buf - hdr) = Some x \<and> mpool x = p \<and> magic x = MEMPOOL_MAGIC_NUM
          \<and> mem x = buf \<and> mp_inv hdr s1"
proof -
  from inv have ex: "\<forall>p \<in> set (mem_pool s). pool_heap s p \<noteq> None"
    unfolding mp_inv_def by fastforce
  from find_mem_pool_from_defined [OF ex] obtain found
    where found: "find_mem_pool s sz = Some found"
    unfolding find_mem_pool_def by blast
  define s0 where "s0 = (case found of Some p \<Rightarrow> s
     | None \<Rightarrow> s\<lparr> mem_pool := np # mem_pool s,
                  pool_heap := (pool_heap s)(np \<mapsto> \<lparr> size = sz, elems = [] \<rparr>) \<rparr>)"
  define p where "p = (case found of Some p \<Rightarrow> p | None \<Rightarrow> np)"
  have np_notin: "np \<notin> set (mem_pool s)" using ex mp(2) by auto
  have inv0: "mp_inv hdr s0"
  proof (cases found)
    case (Some q) with inv show ?thesis by (simp add: s0_def)
  next
    case None
    have "\<forall>q \<in> set (mem_pool s). q \<noteq> np" using np_notin by blast
    then show ?thesis using inv np_notin unfolding s0_def None mp_inv_def by simp
  qed
  have fnd0: "find_mem_pool s0 sz = Some (Some p)"
  proof (cases found)
    case (Some q) with found show ?thesis by (simp add: s0_def p_def)
  next
    case None
    then show ?thesis by (simp add: s0_def p_def find_mem_pool_def)
  qed
  from find_mem_pool_from_Some [OF fnd0 [unfolded find_mem_pool_def]]
  obtain r where pin: "p \<in> set (mem_pool s0)" and r: "pool_heap s0 p = Some r" "size r = sz"
    by blast
  have eh0: "elem_heap s0 = elem_heap s" by (cases found) (simp_all add: s0_def)
  have fc: "(case find_mem_pool s sz of
                Some (Some q) \<Rightarrow> p = q \<and> pool_heap s q = Some r \<and> mem_pool s0 = mem_pool s
              | _ \<Rightarrow> p = np \<and> r = \<lparr> size = sz, elems = [] \<rparr> \<and> mem_pool s0 = np # mem_pool s)"
    using found r by (cases found) (simp_all add: s0_def p_def)
  have ph0: "(pool_heap s0)(p \<mapsto> r') = (pool_heap s)(p \<mapsto> r')" for r'
    by (cases found) (simp_all add: s0_def p_def)
  show ?thesis
  proof (cases "elems r")
    case Nil
    let ?s1 = "s0\<lparr> pool_heap := (pool_heap s0)(p \<mapsto> r\<lparr> elems := [] \<rparr>),
                 elem_heap := (elem_heap s0)(ne \<mapsto>
                    \<lparr> mem = ne + hdr, magic = MEMPOOL_MAGIC_NUM, mpool = p \<rparr>) \<rparr>"
    have a: "allocate_from_mempool hdr malloc_pool malloc_elem sz s = Some (ne + hdr, ?s1)"
      using found r mp(1) me(1) Nil
      by (cases found; cases r)
         (auto simp add: allocate_from_mempool_def s0_def p_def dart__base__stack_pop_def)
    have f1: "find_mem_pool ?s1 sz = Some (Some p)"
    proof -
      have "find_mem_pool_from (pool_heap ?s1) (mem_pool s0) sz
            = find_mem_pool_from (pool_heap s0) (mem_pool s0) sz"
        by (rule find_mem_pool_from_cong) (simp add: r)
      with fnd0 show ?thesis by (simp add: find_mem_pool_def)
    qed
    have i1: "mp_inv hdr ?s1"
      unfolding mp_inv_def
    proof (intro conjI ballI)
      show "distinct (mem_pool ?s1)" using inv0 by (simp add: mp_inv_def)
    next
      fix q assume "q \<in> set (mem_pool ?s1)"
      then have q: "q \<in> set (mem_pool s0)" by simp
      with inv0 obtain rq where rq: "pool_heap s0 q = Some rq"
        and el: "\<forall>e \<in> set (elems rq). \<exists>x. elem_heap s0 e = Some x \<and> mpool x = q
              \<and> mem x = e + hdr \<and> magic x = MEMPOOL_MAGIC_NUM"
        unfolding mp_inv_def by blast
      show "\<exists>r. pool_heap ?s1 q = Some r \<and>
         (\<forall>e \<in> set (elems r). \<exists>x. elem_heap ?s1 e = Some x \<and> mpool x = q
              \<and> mem x = e + hdr \<and> magic x = MEMPOOL_MAGIC_NUM)"
      proof (cases "q = p")
        case True then show ?thesis by simp
      next
        case False
        have "\<forall>e \<in> set (elems rq). e \<noteq> ne" using el me(2) eh0 by auto
        with False rq el show ?thesis by simp
      qed
    qed
    let ?x = "\<lparr> mem = ne + hdr, magic = MEMPOOL_MAGIC_NUM, mpool = p \<rparr>"
    have r1: "r\<lparr> elems := [] \<rparr> = r" using Nil by simp
    have c0: "hdr \<le> ne + hdr" by simp
    have c1: "(case find_mem_pool s sz of
                Some (Some q) \<Rightarrow> p = q \<and> pool_heap s q = Some r \<and> mem_pool ?s1 = mem_pool s
              | _ \<Rightarrow> p = np \<and> r = \<lparr> size = sz, elems = [] \<rparr> \<and> mem_pool ?s1 = np # mem_pool s)"
      using found r by (cases found) (simp_all add: s0_def p_def)
    have c2: "(case elems r of
                e # rest \<Rightarrow> ne + hdr = e + hdr \<and> r = r\<lparr> elems := rest \<rparr> \<and> elem_heap ?s1 = elem_heap s
              | [] \<Rightarrow> ne + hdr = ne + hdr \<and> r = r \<and> elem_heap ?s1 = (elem_heap s)(ne \<mapsto> ?x))"
      using Nil eh0 by simp
    have c3: "pool_heap ?s1 = (pool_heap s)(p \<mapsto> r)" using ph0 [of r] r1 by simp
    have c4: "pool_heap ?s1 p = Some r" using r1 by simp
    have c5: "elem_heap ?s1 (ne + hdr - hdr) = Some ?x" "mpool ?x = p"
      "magic ?x = MEMPOOL_MAGIC_NUM" "mem ?x = ne + hdr" by simp_all
    from a c0 c1 r(2) c2 c3 f1 c4 c5 i1 show ?thesis by blast
  next
    case (Cons e rest)
    from inv0 pin r Cons obtain x where x: "elem_heap s0 e = Some x" "mpool x = p"
       "mem x = e + hdr" "magic x = MEMPOOL_MAGIC_NUM"
      unfolding mp_inv_def by fastforce
    let ?s1 = "s0\<lparr> pool_heap := (pool_heap s0)(p \<mapsto> r\<lparr> elems := rest \<rparr>) \<rparr>"
    have a: "allocate_from_mempool hdr malloc_pool malloc_elem sz s = Some (e + hdr, ?s1)"
      using found r mp(1) me(1) Cons x
      by (cases found) (simp_all add: allocate_from_mempool_def s0_def p_def dart__base__stack_pop_def)
    have f1: "find_mem_pool ?s1 sz = Some (Some p)"
    proof -
      have "find_mem_pool_from (pool_heap ?s1) (mem_pool s0) sz
            = find_mem_pool_from (pool_heap s0) (mem_pool s0) sz"
        by (rule find_mem_pool_from_cong) (simp add: r)
      with fnd0 show ?thesis by (simp add: find_mem_pool_def)
    qed
    have i1: "mp_inv hdr ?s1"
      unfolding mp_inv_def
    proof (intro conjI ballI)
      show "distinct (mem_pool ?s1)" using inv0 by (simp add: mp_inv_def)
    next
      fix q assume "q \<in> set (mem_pool ?s1)"
      then have q: "q \<in> set (mem_pool s0)" by simp
      with inv0 obtain rq where rq: "pool_heap s0 q = Some rq"
        and el: "\<forall>e \<in> set (elems rq). \<exists>x. elem_heap s0 e = Some x \<and> mpool x = q
              \<and> mem x = e + hdr \<and> magic x = MEMPOOL_MAGIC_NUM"
        unfolding mp_inv_def by blast
      show "\<exists>r. pool_heap ?s1 q = Some r \<and>
         (\<forall>e \<in> set (elems r). \<exists>x. elem_heap ?s1 e = Some x \<and> mpool x = q
              \<and> mem x = e + hdr \<and> magic x = MEMPOOL_MAGIC_NUM)"
      proof (cases "q = p")
        case True
        with rq r have "rq = r" by simp
        with el Cons True show ?thesis by simp
      next
        case False
        with rq el show ?thesis by simp
      qed
    qed
    let ?r1 = "r\<lparr> elems := rest \<rparr>"
    have c0: "hdr \<le> e + hdr" by simp
    have c1: "(case find_mem_pool s sz of
                Some (Some q) \<Rightarrow> p = q \<and> pool_heap s q = Some r \<and> mem_pool ?s1 = mem_pool s
              | _ \<Rightarrow> p = np \<and> r = \<lparr> size = sz, elems = [] \<rparr> \<and> mem_pool ?s1 = np # mem_pool s)"
      using found r by (cases found) (simp_all add: s0_def p_def)
    have c2: "(case elems r of
                e' # rest' \<Rightarrow> e + hdr = e' + hdr \<and> ?r1 = r\<lparr> elems := rest' \<rparr>
                               \<and> elem_heap ?s1 = elem_heap s
              | [] \<Rightarrow> e + hdr = ne + hdr \<and> ?r1 = r
                       \<and> elem_heap ?s1 = (elem_heap s)(ne \<mapsto>
                             \<lparr> mem = ne + hdr, magic = MEMPOOL_MAGIC_NUM, mpool = p \<rparr>))"
      using Cons eh0 by simp
    have c3: "pool_heap ?s1 = (pool_heap s)(p \<mapsto> ?r1)" using ph0 [of ?r1] by simp
    have c4: "pool_heap ?s1 p = Some ?r1" "size ?r1 = sz" using r by simp_all
    have c5: "elem_heap ?s1 (e + hdr - hdr) = Some x" using x by simp
    have c6: "mem x = e + hdr" using x by simp
    from a c0 c1 r(2) c2 c3 f1 c4 c5 x(2) x(4) c6 i1 show ?thesis by blast
  qed
qed




lemma return_to_mempool_ok:
  assumes "hdr \<le> buf" and "elem_heap s (buf - hdr) = Some x" and "magic x = MEMPOOL_MAGIC_NUM"
      and "pool_heap s (mpool x) = Some r"
  shows "return_to_mempool hdr buf s
         = Some (s\<lparr> pool_heap := (pool_heap s)(mpool x \<mapsto> r\<lparr> elems := (buf - hdr) # elems r \<rparr>) \<rparr>)"
  using assms by (simp add: return_to_mempool_def dart__base__stack_push_def)

lemma return_to_mempool_corrupt:
  assumes "elem_heap s (buf - hdr) = Some x" and "magic x \<noteq> MEMPOOL_MAGIC_NUM"
  shows "return_to_mempool hdr buf s = None"
  using assms by (simp add: return_to_mempool_def)

lemma find_copyin_out_Some:
  "find_copyin_out es = Some i \<Longrightarrow> i < length es \<and> dep_type (dep (es ! i)) = DART_DEP_COPYIN_OUT"
  by (induction es arbitrary: i) (auto split: if_splits)

text \<open>
  C8.  For a copy-in dependency whose destination is null, preparing the dependency
  allocates the buffer from the pool whose size field equals the dependency's size.  If
  the chain of pools holds such a pool, that pool is used and the chain stays as it was;
  if not, a pool of that size with an empty free list is created and put in front of the
  chain.  If the free list of the pool holds an element, its top element is popped and
  its buffer handed out; if not, a new element is created whose back reference names the
  pool.  No other pool changes.  The buffer is stored as the destination, and
  \<open>dart_tasking_copyin_release_mem\<close> is installed as the destructor.  Running the
  destructor clears the destination and pushes the element onto the free list of that same
  pool, and changes nothing else.  The magic word is checked on the way: with any other
  magic word in the element header the destructor aborts.
\<close>

theorem copyin_buffer_same_size_class:
  assumes inv: "mp_inv hdr s"
      and mp: "malloc_pool = Some np" "np \<notin> dom (pool_heap s)"
      and me: "malloc_elem = Some ne" "ne \<notin> dom (elem_heap s)"
      and f: "find_copyin_out deps = Some i"
      and d: "copyin_dest (dep (deps ! i)) = None"
  shows "\<exists>buf deps1 s1 p r0 r1 x.
           dart_tasking_copyin_prepare_dep hdr malloc_pool malloc_elem deps s = Some (i, deps1, s1)
         \<and> deps1 = deps[i := (deps ! i)\<lparr> dep := (dep (deps ! i))\<lparr> copyin_dest := Some buf \<rparr>,
                                         dtor := Some Dtor_copyin_release_mem \<rparr>]
         \<and> copyin_dest (dep (deps1 ! i)) = Some buf
         \<and> dtor (deps1 ! i) = Some Dtor_copyin_release_mem
         \<and> (case find_mem_pool s (copyin_size (dep (deps ! i))) of
               Some (Some q) \<Rightarrow> p = q \<and> pool_heap s q = Some r0 \<and> mem_pool s1 = mem_pool s
             | _ \<Rightarrow> p = np \<and> r0 = \<lparr> size = copyin_size (dep (deps ! i)), elems = [] \<rparr>
                     \<and> mem_pool s1 = np # mem_pool s)
         \<and> size r0 = copyin_size (dep (deps ! i))
         \<and> (case elems r0 of
               e # rest \<Rightarrow> buf = e + hdr \<and> r1 = r0\<lparr> elems := rest \<rparr> \<and> elem_heap s1 = elem_heap s
             | [] \<Rightarrow> buf = ne + hdr \<and> r1 = r0
                     \<and> elem_heap s1 = (elem_heap s)(ne \<mapsto>
                           \<lparr> mem = ne + hdr, magic = MEMPOOL_MAGIC_NUM, mpool = p \<rparr>))
         \<and> pool_heap s1 = (pool_heap s)(p \<mapsto> r1)
         \<and> find_mem_pool s1 (copyin_size (dep (deps ! i))) = Some (Some p)
         \<and> size r1 = copyin_size (dep (deps ! i))
         \<and> elem_heap s1 (buf - hdr) = Some x \<and> mpool x = p
         \<and> dart_tasking_copyin_release_mem hdr (deps1 ! i) s1
             = Some ((deps1 ! i)\<lparr> dep := (dep (deps1 ! i))\<lparr> copyin_dest := None \<rparr> \<rparr>,
                     s1\<lparr> pool_heap := (pool_heap s1)(p \<mapsto>
                           r1\<lparr> elems := (buf - hdr) # elems r1 \<rparr>) \<rparr>)
         \<and> (\<forall>w. w \<noteq> MEMPOOL_MAGIC_NUM \<longrightarrow>
                dart_tasking_copyin_release_mem hdr (deps1 ! i)
                  (s1\<lparr> elem_heap := (elem_heap s1)(buf - hdr \<mapsto> x\<lparr> magic := w \<rparr>) \<rparr>) = None)"
proof -
  let ?sz = "copyin_size (dep (deps ! i))"
  let ?el = "deps ! i"
  from find_copyin_out_Some [OF f] have il: "i < length deps" by simp
  from allocate_from_mempool_exact [OF inv mp me, of ?sz]
  obtain buf s1 p r0 r1 x where
    a: "allocate_from_mempool hdr malloc_pool malloc_elem ?sz s = Some (buf, s1)"
    and hb: "hdr \<le> buf"
    and c1: "(case find_mem_pool s ?sz of
               Some (Some q) \<Rightarrow> p = q \<and> pool_heap s q = Some r0 \<and> mem_pool s1 = mem_pool s
             | _ \<Rightarrow> p = np \<and> r0 = \<lparr> size = ?sz, elems = [] \<rparr> \<and> mem_pool s1 = np # mem_pool s)"
    and c2: "size r0 = ?sz"
    and c3: "(case elems r0 of
               e # rest \<Rightarrow> buf = e + hdr \<and> r1 = r0\<lparr> elems := rest \<rparr> \<and> elem_heap s1 = elem_heap s
             | [] \<Rightarrow> buf = ne + hdr \<and> r1 = r0
                     \<and> elem_heap s1 = (elem_heap s)(ne \<mapsto>
                           \<lparr> mem = ne + hdr, magic = MEMPOOL_MAGIC_NUM, mpool = p \<rparr>))"
    and c4: "pool_heap s1 = (pool_heap s)(p \<mapsto> r1)"
    and fp: "find_mem_pool s1 ?sz = Some (Some p)"
    and ph: "pool_heap s1 p = Some r1" "size r1 = ?sz"
    and eh: "elem_heap s1 (buf - hdr) = Some x" "mpool x = p" "magic x = MEMPOOL_MAGIC_NUM"
    by blast
  define deps1 where "deps1 = deps[i := ?el\<lparr> dep := (dep ?el)\<lparr> copyin_dest := Some buf \<rparr>,
                               dtor := Some Dtor_copyin_release_mem \<rparr>]"
  have prep: "dart_tasking_copyin_prepare_dep hdr malloc_pool malloc_elem deps s
              = Some (i, deps1, s1)"
    using f d a by (simp add: dart_tasking_copyin_prepare_dep_def Let_def deps1_def)
  have el1: "deps1 ! i = ?el\<lparr> dep := (dep ?el)\<lparr> copyin_dest := Some buf \<rparr>,
                               dtor := Some Dtor_copyin_release_mem \<rparr>"
    using il by (simp add: deps1_def)
  have k1: "copyin_dest (dep (deps1 ! i)) = Some buf"
    and k2: "dtor (deps1 ! i) = Some Dtor_copyin_release_mem"
    by (simp_all add: el1)
  have ret: "return_to_mempool hdr buf s1
         = Some (s1\<lparr> pool_heap := (pool_heap s1)(p \<mapsto> r1\<lparr> elems := (buf - hdr) # elems r1 \<rparr>) \<rparr>)"
    using return_to_mempool_ok [OF hb eh(1) eh(3)] ph(1) eh(2) by simp
  have rel: "dart_tasking_copyin_release_mem hdr (deps1 ! i) s1
             = Some ((deps1 ! i)\<lparr> dep := (dep (deps1 ! i))\<lparr> copyin_dest := None \<rparr> \<rparr>,
                     s1\<lparr> pool_heap := (pool_heap s1)(p \<mapsto>
                           r1\<lparr> elems := (buf - hdr) # elems r1 \<rparr>) \<rparr>)"
    by (simp add: dart_tasking_copyin_release_mem_def ret k1)
  have bad: "\<forall>w. w \<noteq> MEMPOOL_MAGIC_NUM \<longrightarrow>
                dart_tasking_copyin_release_mem hdr (deps1 ! i)
                  (s1\<lparr> elem_heap := (elem_heap s1)(buf - hdr \<mapsto> x\<lparr> magic := w \<rparr>) \<rparr>) = None"
    by (simp add: dart_tasking_copyin_release_mem_def return_to_mempool_def k1)
  from prep deps1_def k1 k2 c1 c2 c3 c4 fp ph(2) eh(1,2) rel bad show ?thesis by blast
qed

theorem copyin_buffer_same_size_class_witness:
  "(\<exists>deps1 s1 el2 s2.
     dart_tasking_copyin_prepare_dep 32 (Some 1000) (Some 2000)
       [\<lparr> dep = \<lparr> dep_type = DART_DEP_COPYIN_OUT, dep_phase = 0, copyin_size = 1024,
                  copyin_dest = None \<rparr>, dtor = None \<rparr>] mempool_state_initial
       = Some (0, deps1, s1)
     \<and> copyin_dest (dep (deps1 ! 0)) = Some 2032
     \<and> dtor (deps1 ! 0) = Some Dtor_copyin_release_mem
     \<and> mem_pool s1 = [1000]
     \<and> pool_heap s1 1000 = Some \<lparr> size = 1024, elems = [] \<rparr>
     \<and> dart_tasking_copyin_release_mem 32 (deps1 ! 0) s1 = Some (el2, s2)
     \<and> pool_heap s2 1000 = Some \<lparr> size = 1024, elems = [2000] \<rparr>)
   \<and> (\<exists>deps1 s1 el2 s2.
     dart_tasking_copyin_prepare_dep 32 (Some 1200) (Some 2100)
       [\<lparr> dep = \<lparr> dep_type = DART_DEP_COPYIN_OUT, dep_phase = 0, copyin_size = 1024,
                  copyin_dest = None \<rparr>, dtor = None \<rparr>] example_pools
       = Some (0, deps1, s1)
     \<and> copyin_dest (dep (deps1 ! 0)) = Some 2032
     \<and> dtor (deps1 ! 0) = Some Dtor_copyin_release_mem
     \<and> mem_pool s1 = [1000, 1100]
     \<and> pool_heap s1 1100 = Some \<lparr> size = 1024, elems = [] \<rparr>
     \<and> pool_heap s1 1000 = Some \<lparr> size = 512, elems = [] \<rparr>
     \<and> dart_tasking_copyin_release_mem 32 (deps1 ! 0) s1 = Some (el2, s2)
     \<and> pool_heap s2 1100 = Some \<lparr> size = 1024, elems = [2000] \<rparr>)"
proof -
  let ?deps = "[\<lparr> dep = \<lparr> dep_type = DART_DEP_COPYIN_OUT, dep_phase = 0, copyin_size = 1024,
                  copyin_dest = None \<rparr>, dtor = None \<rparr>]"
  let ?deps1 = "[\<lparr> dep = \<lparr> dep_type = DART_DEP_COPYIN_OUT, dep_phase = 0, copyin_size = 1024,
                  copyin_dest = Some 2032 \<rparr>, dtor = Some Dtor_copyin_release_mem \<rparr>]"
  have f: "find_copyin_out ?deps = Some 0" by simp
  have d: "copyin_dest (dep (?deps ! 0)) = None" by simp
  have A: "\<exists>deps1 s1 el2 s2.
     dart_tasking_copyin_prepare_dep 32 (Some 1000) (Some 2000) ?deps mempool_state_initial
       = Some (0, deps1, s1)
     \<and> copyin_dest (dep (deps1 ! 0)) = Some 2032
     \<and> dtor (deps1 ! 0) = Some Dtor_copyin_release_mem
     \<and> mem_pool s1 = [1000]
     \<and> pool_heap s1 1000 = Some \<lparr> size = 1024, elems = [] \<rparr>
     \<and> dart_tasking_copyin_release_mem 32 (deps1 ! 0) s1 = Some (el2, s2)
     \<and> pool_heap s2 1000 = Some \<lparr> size = 1024, elems = [2000] \<rparr>"
  proof -
  have inva: "mp_inv 32 mempool_state_initial"
    by (simp add: mp_inv_def mempool_state_initial_def)
  have mpa: "Some (1000::nat) = Some 1000" "1000 \<notin> dom (pool_heap mempool_state_initial)"
    by (simp_all add: mempool_state_initial_def)
  have mea: "Some (2000::nat) = Some 2000" "2000 \<notin> dom (elem_heap mempool_state_initial)"
    by (simp_all add: mempool_state_initial_def)
  define s1a where "s1a = \<lparr> mem_pool = [1000], pool_heap = [1000 \<mapsto> \<lparr> size = 1024, elems = [] \<rparr>],
          elem_heap = [2000 \<mapsto> \<lparr> mem = 2032, magic = MEMPOOL_MAGIC_NUM, mpool = 1000 \<rparr>] \<rparr>"
  have pra: "dart_tasking_copyin_prepare_dep 32 (Some 1000) (Some 2000) ?deps mempool_state_initial
       = Some (0, ?deps1, s1a)"
    by (simp add: dart_tasking_copyin_prepare_dep_def allocate_from_mempool_def find_mem_pool_def
        mempool_state_initial_def dart__base__stack_pop_def Let_def s1a_def)
  have fma: "find_mem_pool s1a 1024 = Some (Some 1000)"
    by (simp add: find_mem_pool_def s1a_def)
  have pha: "mem_pool s1a = [1000]"
    "pool_heap s1a 1000 = Some \<lparr> size = 1024, elems = [] \<rparr>" 
    by (simp_all add: s1a_def)
  from copyin_buffer_same_size_class [OF inva mpa mea f d]
  obtain buf deps1 s1 p r1 where
    P: "dart_tasking_copyin_prepare_dep 32 (Some 1000) (Some 2000) ?deps mempool_state_initial
          = Some (0, deps1, s1)"
    and B: "copyin_dest (dep (deps1 ! 0)) = Some buf"
    and F: "find_mem_pool s1 (copyin_size (dep (?deps ! 0))) = Some (Some p)"
    and PH: "pool_heap s1 = (pool_heap mempool_state_initial)(p \<mapsto> r1)"
    and REL: "dart_tasking_copyin_release_mem 32 (deps1 ! 0) s1
             = Some ((deps1 ! 0)\<lparr> dep := (dep (deps1 ! 0))\<lparr> copyin_dest := None \<rparr> \<rparr>,
                     s1\<lparr> pool_heap := (pool_heap s1)(p \<mapsto>
                           r1\<lparr> elems := (buf - 32) # elems r1 \<rparr>) \<rparr>)"
    by blast
  from P pra have e: "deps1 = ?deps1" "s1 = s1a" by simp_all
  from B e have b: "buf = 2032" by simp
  from F e fma have p: "p = 1000" by simp
  from PH have "pool_heap s1 p = Some r1" by simp
  with e p pha(2) have r1: "r1 = \<lparr> size = 1024, elems = [] \<rparr>" by simp
  from REL have "\<exists>el2 s2. dart_tasking_copyin_release_mem 32 (?deps1 ! 0) s1a = Some (el2, s2)
     \<and> pool_heap s2 1000 = Some \<lparr> size = 1024, elems = [2000] \<rparr>"
    unfolding e b p r1 by simp

    with pra pha show ?thesis by simp
  qed
  have B: "\<exists>deps1 s1 el2 s2.
     dart_tasking_copyin_prepare_dep 32 (Some 1200) (Some 2100) ?deps example_pools
       = Some (0, deps1, s1)
     \<and> copyin_dest (dep (deps1 ! 0)) = Some 2032
     \<and> dtor (deps1 ! 0) = Some Dtor_copyin_release_mem
     \<and> mem_pool s1 = [1000, 1100]
     \<and> pool_heap s1 1100 = Some \<lparr> size = 1024, elems = [] \<rparr>
     \<and> pool_heap s1 1000 = Some \<lparr> size = 512, elems = [] \<rparr>
     \<and> dart_tasking_copyin_release_mem 32 (deps1 ! 0) s1 = Some (el2, s2)
     \<and> pool_heap s2 1100 = Some \<lparr> size = 1024, elems = [2000] \<rparr>"
  proof -
  have invb: "mp_inv 32 example_pools"
    by (simp add: mp_inv_def example_pools_def)
  have mpb: "Some (1200::nat) = Some 1200" "1200 \<notin> dom (pool_heap example_pools)"
    by (simp_all add: example_pools_def)
  have meb: "Some (2100::nat) = Some 2100" "2100 \<notin> dom (elem_heap example_pools)"
    by (simp_all add: example_pools_def)
  define s1b where "s1b = example_pools\<lparr> pool_heap := (pool_heap example_pools)(1100 \<mapsto> \<lparr> size = 1024, elems = [] \<rparr>) \<rparr>"
  have prb: "dart_tasking_copyin_prepare_dep 32 (Some 1200) (Some 2100) ?deps example_pools
       = Some (0, ?deps1, s1b)"
    by (simp add: dart_tasking_copyin_prepare_dep_def allocate_from_mempool_def find_mem_pool_def
        example_pools_def dart__base__stack_pop_def Let_def s1b_def)
  have fmb: "find_mem_pool s1b 1024 = Some (Some 1100)"
    by (simp add: find_mem_pool_def s1b_def example_pools_def)
  have phb: "mem_pool s1b = [1000, 1100]"
    "pool_heap s1b 1100 = Some \<lparr> size = 1024, elems = [] \<rparr>" "pool_heap s1b 1000 = Some \<lparr> size = 512, elems = [] \<rparr>"
    by (simp_all add: s1b_def example_pools_def)
  from copyin_buffer_same_size_class [OF invb mpb meb f d]
  obtain buf deps1 s1 p r1 where
    P: "dart_tasking_copyin_prepare_dep 32 (Some 1200) (Some 2100) ?deps example_pools
          = Some (0, deps1, s1)"
    and B: "copyin_dest (dep (deps1 ! 0)) = Some buf"
    and F: "find_mem_pool s1 (copyin_size (dep (?deps ! 0))) = Some (Some p)"
    and PH: "pool_heap s1 = (pool_heap example_pools)(p \<mapsto> r1)"
    and REL: "dart_tasking_copyin_release_mem 32 (deps1 ! 0) s1
             = Some ((deps1 ! 0)\<lparr> dep := (dep (deps1 ! 0))\<lparr> copyin_dest := None \<rparr> \<rparr>,
                     s1\<lparr> pool_heap := (pool_heap s1)(p \<mapsto>
                           r1\<lparr> elems := (buf - 32) # elems r1 \<rparr>) \<rparr>)"
    by blast
  from P prb have e: "deps1 = ?deps1" "s1 = s1b" by simp_all
  from B e have b: "buf = 2032" by simp
  from F e fmb have p: "p = 1100" by simp
  from PH have "pool_heap s1 p = Some r1" by simp
  with e p phb(2) have r1: "r1 = \<lparr> size = 1024, elems = [] \<rparr>" by simp
  from REL have "\<exists>el2 s2. dart_tasking_copyin_release_mem 32 (?deps1 ! 0) s1b = Some (el2, s2)
     \<and> pool_heap s2 1100 = Some \<lparr> size = 1024, elems = [2000] \<rparr>"
    unfolding e b p r1 by simp

    with prb phb show ?thesis by simp
  qed
  from A B show ?thesis by blast
qed

section \<open>Properties of the active-message queue\<close>

lemma trysend_free_slot_defined:
  assumes "0 \<le> send_tailpos q" "send_tailpos q < msg_count q"
      and "msg_count q \<le> int (length (send_bufs q))" "msg_count q \<le> int (length (send_reqs q))"
      and "length data \<le> msg_size q"
      and "sync_send q \<or> (0 \<le> target \<and> target < int (length (send_count q)))"
  shows "\<exists>q'. dart_amsg_sendrecv_trysend target data ts mpi_ret req q
            = Some (if mpi_ret \<noteq> MPI_SUCCESS then DART_ERR_AGAIN else DART_OK, q')"
  using assms
  by (cases "direct_send q"; cases "sync_send q")
     (auto simp add: dart_amsg_sendrecv_trysend_def Let_def bump_send_count_def)

text \<open>
  C9.  Sending an active message answers \<open>DART_ERR_AGAIN\<close> (and changes nothing) when
  the ring of send requests is full and \<open>MPI_Testsome\<close> reports no completed send; it
  answers \<open>DART_ERR_AGAIN\<close> whenever the transport's send returns a code other than
  \<open>MPI_SUCCESS\<close> (and with a free slot and arguments in range the call does return);
  nonblocking message processing answers \<open>DART_ERR_AGAIN\<close> when the processing mutex is
  busy.
\<close>

theorem amsg_transient_failures_return_again:
  "(\<not> direct_send q \<and> send_tailpos q = msg_count q \<and> outcount \<le> 0 \<longrightarrow>
      dart_amsg_sendrecv_trysend target data (outcount, outidx) mpi_ret req q
        = Some (DART_ERR_AGAIN, q))
   \<and> (mpi_ret \<noteq> MPI_SUCCESS \<longrightarrow>
        (\<forall>r q'. dart_amsg_sendrecv_trysend target data ts mpi_ret req q = Some (r, q')
                 \<longrightarrow> r = DART_ERR_AGAIN))
   \<and> (mpi_ret \<noteq> MPI_SUCCESS \<and> 0 \<le> send_tailpos q \<and> send_tailpos q < msg_count q
        \<and> msg_count q \<le> int (length (send_bufs q)) \<and> msg_count q \<le> int (length (send_reqs q))
        \<and> length data \<le> msg_size q
        \<and> (sync_send q \<or> (0 \<le> target \<and> target < int (length (send_count q)))) \<longrightarrow>
        (\<exists>q'. dart_amsg_sendrecv_trysend target data ts mpi_ret req q
                 = Some (DART_ERR_AGAIN, q')))
   \<and> (processing_mutex q \<longrightarrow>
        dart_amsg_sendrecv_process tests q = Some (DART_ERR_AGAIN, q, []))"
proof (intro conjI impI allI)
  assume "\<not> direct_send q \<and> send_tailpos q = msg_count q \<and> outcount \<le> 0"
  then show "dart_amsg_sendrecv_trysend target data (outcount, outidx) mpi_ret req q
        = Some (DART_ERR_AGAIN, q)"
    by (simp add: dart_amsg_sendrecv_trysend_def amsgq_test_sendreqs_unsafe_def
        testsome_completed_def)
next
  fix r q'
  assume "mpi_ret \<noteq> MPI_SUCCESS"
     and "dart_amsg_sendrecv_trysend target data ts mpi_ret req q = Some (r, q')"
  then show "r = DART_ERR_AGAIN"
    by (auto simp add: dart_amsg_sendrecv_trysend_def amsgq_test_sendreqs_unsafe_def Let_def
        split: if_splits option.splits prod.splits sum.splits)
next
  assume a: "mpi_ret \<noteq> MPI_SUCCESS \<and> 0 \<le> send_tailpos q \<and> send_tailpos q < msg_count q
        \<and> msg_count q \<le> int (length (send_bufs q)) \<and> msg_count q \<le> int (length (send_reqs q))
        \<and> length data \<le> msg_size q
        \<and> (sync_send q \<or> (0 \<le> target \<and> target < int (length (send_count q))))"
  then have "\<exists>q'. dart_amsg_sendrecv_trysend target data ts mpi_ret req q
            = Some (if mpi_ret \<noteq> MPI_SUCCESS then DART_ERR_AGAIN else DART_OK, q')"
    by (intro trysend_free_slot_defined) simp_all
  with a show "\<exists>q'. dart_amsg_sendrecv_trysend target data ts mpi_ret req q
                 = Some (DART_ERR_AGAIN, q')" by simp
next
  assume "processing_mutex q"
  then show "dart_amsg_sendrecv_process tests q = Some (DART_ERR_AGAIN, q, [])"
    by (simp add: dart_amsg_sendrecv_process_def amsg_sendrecv_process_internal_def
        dart__base__mutex_trylock_def)
qed

theorem amsg_transient_failures_return_again_witness:
  "dart_amsg_sendrecv_trysend 1 [9] (0, [])  0 5
      \<lparr> recv_bufs = [[0,0],[0,0]], send_reqs = [Some 1, Some 2], send_bufs = [[1,1],[2,2]],
        send_count = [0,0,0], recv_count = [0,0,0], send_tailpos = 2, msg_size = 2,
        msg_count = 2, processing_mutex = True, direct_send = False, sync_send = False \<rparr>
     = Some (DART_ERR_AGAIN,
      \<lparr> recv_bufs = [[0,0],[0,0]], send_reqs = [Some 1, Some 2], send_bufs = [[1,1],[2,2]],
        send_count = [0,0,0], recv_count = [0,0,0], send_tailpos = 2, msg_size = 2,
        msg_count = 2, processing_mutex = True, direct_send = False, sync_send = False \<rparr>)
   \<and> (\<exists>q'. dart_amsg_sendrecv_trysend 1 [9] (0, []) 1 5
      \<lparr> recv_bufs = [[0,0],[0,0]], send_reqs = [Some 1, None], send_bufs = [[1,1],[2,2]],
        send_count = [0,0,0], recv_count = [0,0,0], send_tailpos = 1, msg_size = 2,
        msg_count = 2, processing_mutex = True, direct_send = False, sync_send = False \<rparr>
     = Some (DART_ERR_AGAIN, q'))
   \<and> dart_amsg_sendrecv_process []
      \<lparr> recv_bufs = [[0,0],[0,0]], send_reqs = [Some 1, Some 2], send_bufs = [[1,1],[2,2]],
        send_count = [0,0,0], recv_count = [0,0,0], send_tailpos = 2, msg_size = 2,
        msg_count = 2, processing_mutex = True, direct_send = False, sync_send = False \<rparr>
     = Some (DART_ERR_AGAIN,
      \<lparr> recv_bufs = [[0,0],[0,0]], send_reqs = [Some 1, Some 2], send_bufs = [[1,1],[2,2]],
        send_count = [0,0,0], recv_count = [0,0,0], send_tailpos = 2, msg_size = 2,
        msg_count = 2, processing_mutex = True, direct_send = False, sync_send = False \<rparr>, [])"
proof -
  let ?q = "\<lparr> recv_bufs = [[0,0],[0,0]], send_reqs = [Some 1, Some 2], send_bufs = [[1,1],[2,2]],
        send_count = [0,0,0], recv_count = [0,0,0], send_tailpos = 2, msg_size = 2,
        msg_count = 2, processing_mutex = True, direct_send = False, sync_send = False \<rparr>"
  let ?p = "\<lparr> recv_bufs = [[0,0],[0,0]], send_reqs = [Some 1, None], send_bufs = [[1,1],[2,2]],
        send_count = [0,0,0], recv_count = [0,0,0], send_tailpos = 1, msg_size = 2,
        msg_count = 2, processing_mutex = True, direct_send = False, sync_send = False \<rparr>"
  have 1: "dart_amsg_sendrecv_trysend 1 [9] (0, []) 0 5 ?q = Some (DART_ERR_AGAIN, ?q)"
    using amsg_transient_failures_return_again [of ?q 0 1 "[9]" "[]" 0 5]
    by simp
  have 2: "\<exists>q'. dart_amsg_sendrecv_trysend 1 [9] (0, []) 1 5 ?p = Some (DART_ERR_AGAIN, q')"
    using amsg_transient_failures_return_again [of ?p 0 1 "[9]" "[]" 1 5 "(0, [])"]
    by (simp add: MPI_SUCCESS_def)
  have 3: "dart_amsg_sendrecv_process [] ?q = Some (DART_ERR_AGAIN, ?q, [])"
    using amsg_transient_failures_return_again [of ?q 0 1 "[9]" "[]" 0 5 "(0, [])" "[]"]
    by simp
  from 1 2 3 show ?thesis by blast
qed

section \<open>Properties of the task queues\<close>

subsection \<open>Linked chains\<close>

lemma first_of_append [simp]: "first_of (xs @ ys) q = first_of xs (first_of ys q)"
  by (cases xs) simp_all

lemma last_of_append [simp]: "last_of p (xs @ ys) = last_of (last_of p xs) ys"
  by (induction xs arbitrary: p) simp_all

lemma last_of_nonempty: "xs \<noteq> [] \<Longrightarrow> last_of p xs = Some (last xs)"
  by (induction xs arbitrary: p) auto

lemma first_of_nonempty: "xs \<noteq> [] \<Longrightarrow> first_of xs q = Some (hd xs)"
  by (cases xs) simp_all

lemma first_of_None: "first_of xs None = None \<longleftrightarrow> xs = []"
  by (cases xs) simp_all

lemma last_of_None: "last_of None xs = None \<longleftrightarrow> xs = []"
  by (cases "xs = []") (simp_all add: last_of_nonempty)

lemma chain_append:
  "chain nx pv p (xs @ ys) q =
     (chain nx pv p xs (first_of ys q) \<and> chain nx pv (last_of p xs) ys q)"
  by (induction xs arbitrary: p) auto

lemma chain_frame:
  "\<forall>x \<in> set xs. nx' x = nx x \<and> pv' x = pv x \<Longrightarrow> chain nx' pv' p xs q = chain nx pv p xs q"
  by (induction xs arbitrary: p) auto

lemma dq_rep_empty_iff:
  "dq_rep h d xs \<Longrightarrow> (head d = None \<longleftrightarrow> xs = []) \<and> (tail d = None \<longleftrightarrow> xs = [])"
  by (simp add: dq_rep_def first_of_None last_of_None)

lemma last_of_Some: "last_of (Some y) ys = Some (last (y # ys))"
  by (induction ys arbitrary: y) auto

lemma first_of_in: "first_of xs None = Some x \<Longrightarrow> x \<in> set xs"
  by (cases xs) auto

lemma last_of_in: "last_of None xs = Some x \<Longrightarrow> x \<in> set xs"
  by (cases "xs = []") (auto simp: last_of_nonempty)

lemma chain_set_q:
  "chain nx pv p xs q \<Longrightarrow> distinct xs \<Longrightarrow> xs \<noteq> [] \<Longrightarrow> chain (nx(last xs := q')) pv p xs q'"
proof (induction xs arbitrary: p)
  case Nil then show ?case by simp
next
  case (Cons x xs)
  show ?case
  proof (cases xs)
    case Nil with Cons.prems show ?thesis by simp
  next
    case (Cons y ys)
    with Cons.prems Cons.IH [of "Some x"] show ?thesis by auto
  qed
qed

lemma chain_set_p:
  "chain nx pv p xs q \<Longrightarrow> distinct xs \<Longrightarrow> xs \<noteq> [] \<Longrightarrow> chain nx (pv(hd xs := p')) p' xs q"
proof (cases xs)
  case Nil then show "xs \<noteq> [] \<Longrightarrow> ?thesis" by simp
next
  case (Cons x ys)
  assume c: "chain nx pv p xs q" and d: "distinct xs"
  have "chain nx (pv(x := p')) (Some x) ys q = chain nx pv (Some x) ys q"
    by (rule chain_frame) (use d Cons in auto)
  with c Cons show ?thesis by simp
qed

lemma links_frame_refl: "links_frame h h S"
  by (simp add: links_frame_def)

lemma links_frame_mono: "links_frame h h' S \<Longrightarrow> S \<subseteq> T \<Longrightarrow> links_frame h h' T"
  by (auto simp: links_frame_def)

lemma links_frame_trans:
  "links_frame h h' S \<Longrightarrow> links_frame h' h'' T \<Longrightarrow> links_frame h h'' (S \<union> T)"
  unfolding links_frame_def
  by (metis (no_types, lifting) UnCI task_links.surjective task_links.update_convs(1,2))

lemma dq_rep_frame:
  "dq_rep h d xs \<Longrightarrow> links_frame h h' S \<Longrightarrow> S \<inter> set xs = {} \<Longrightarrow> dq_rep h' d xs"
  unfolding dq_rep_def links_frame_def
  by (metis (no_types, lifting) chain_frame disjoint_iff)

lemma task_deque_push_rep:
  assumes r: "dq_rep h d xs" and t: "t \<notin> set xs" "t_next h t = None" "t_prev h t = None"
  shows "\<exists>h' d'. task_deque_push h d t = Some (h', d') \<and> dq_rep h' d' (t # xs)
           \<and> links_frame h h' (insert t (set xs))"
proof (cases xs)
  case Nil
  with r t show ?thesis
    by (simp add: task_deque_push_def dq_rep_def links_frame_def)
next
  case (Cons y ys)
  from r Cons have hd: "head d = Some y" and tl: "tail d \<noteq> None"
    by (simp_all add: dq_rep_def last_of_Some)
  let ?h' = "h\<lparr> t_next := (t_next h)(t := Some y), t_prev := (t_prev h)(y := Some t) \<rparr>"
  let ?d' = "d\<lparr> head := Some t \<rparr>"
  have p: "task_deque_push h d t = Some (?h', ?d')"
    using hd tl by (auto simp add: task_deque_push_def)
  from r Cons have c: "chain (t_next h) (t_prev h) None (y # ys) None" and dist: "distinct (y # ys)"
    by (simp_all add: dq_rep_def)
  have c1: "chain (t_next h) ((t_prev h)(y := Some t)) (Some t) (y # ys) None"
    using chain_set_p [OF c dist] by simp
  have c2: "chain ((t_next h)(t := Some y)) ((t_prev h)(y := Some t)) (Some t) (y # ys) None"
    using c1 t(1) Cons
    by (subst chain_frame [where nx = "t_next h" and pv = "(t_prev h)(y := Some t)"]) auto
  have "dq_rep ?h' ?d' (t # xs)"
    using r t Cons c2 by (auto simp add: dq_rep_def)
  moreover have "links_frame h ?h' (insert t (set xs))"
    using Cons by (simp add: links_frame_def)
  ultimately show ?thesis using p by blast
qed

lemma task_deque_pushback_rep:
  assumes r: "dq_rep h d xs" and t: "t \<notin> set xs" "t_next h t = None" "t_prev h t = None"
  shows "\<exists>h' d'. task_deque_pushback h d t = Some (h', d') \<and> dq_rep h' d' (xs @ [t])
           \<and> links_frame h h' (insert t (set xs))"
proof (cases "xs = []")
  case True
  with r t show ?thesis
    by (simp add: task_deque_pushback_def dq_rep_def links_frame_def)
next
  case False
  define l where "l = last xs"
  from r False have hd: "head d \<noteq> None" and tl: "tail d = Some l"
    by (simp_all add: dq_rep_def last_of_nonempty first_of_None l_def)
  from False have lin: "l \<in> set xs" by (simp add: l_def)
  with t have lt: "l \<noteq> t" by auto
  let ?h' = "h\<lparr> t_prev := (t_prev h)(t := Some l), t_next := (t_next h)(l := Some t) \<rparr>"
  let ?d' = "d\<lparr> tail := Some t \<rparr>"
  have p: "task_deque_pushback h d t = Some (?h', ?d')"
    using hd tl by (auto simp add: task_deque_pushback_def)
  from r have c: "chain (t_next h) (t_prev h) None xs None" and dist: "distinct xs"
    by (simp_all add: dq_rep_def)
  have c1: "chain ((t_next h)(l := Some t)) (t_prev h) None xs (Some t)"
    using chain_set_q [OF c dist False] by (simp add: l_def)
  have c2: "chain ((t_next h)(l := Some t)) ((t_prev h)(t := Some l)) None xs (Some t)"
    using c1 t(1)
    by (subst chain_frame [where nx = "(t_next h)(l := Some t)" and pv = "t_prev h"]) auto
  have c3: "chain ((t_next h)(l := Some t)) ((t_prev h)(t := Some l)) None (xs @ [t]) None"
    using c2 t(2) lt False by (simp add: chain_append last_of_nonempty l_def)
  have "dq_rep ?h' ?d' (xs @ [t])"
    using r t c3 False by (cases xs) (auto simp add: dq_rep_def)
  moreover have "links_frame h ?h' (insert t (set xs))"
    using lin by (simp add: links_frame_def)
  ultimately show ?thesis using p by blast
qed

lemma task_deque_pop_rep:
  assumes r: "dq_rep h d xs"
  shows "\<exists>h' d'. task_deque_pop h d = Some (first_of xs None, h', d') \<and> dq_rep h' d' (tl xs)
           \<and> links_frame h h' (set xs)
           \<and> (\<forall>x. first_of xs None = Some x \<longrightarrow> t_next h' x = None \<and> t_prev h' x = None)"
proof (cases xs)
  case Nil
  with r show ?thesis
    by (simp add: task_deque_pop_def dq_rep_def links_frame_def)
next
  case (Cons x ys)
  note xs = Cons
  from r xs have hd: "head d = Some x" and tl: "tail d = Some (last (x # ys))"
    and c: "chain (t_next h) (t_prev h) None (x # ys) None" and dist: "distinct (x # ys)"
    by (simp_all add: dq_rep_def last_of_Some)
  show ?thesis
  proof (cases ys)
    case Nil
    let ?h' = "h\<lparr> t_prev := (t_prev h)(x := None), t_next := (t_next h)(x := None) \<rparr>"
    have "task_deque_pop h d = Some (Some x, ?h', d\<lparr> head := None, tail := None \<rparr>)"
      using hd tl Nil by (simp add: task_deque_pop_def)
    moreover have "dq_rep ?h' (d\<lparr> head := None, tail := None \<rparr>) []"
      by (simp add: dq_rep_def)
    moreover have "links_frame h ?h' (set xs)"
      using xs by (simp add: links_frame_def)
    ultimately show ?thesis using xs Nil by simp
  next
    case (Cons y zs)
    from c Cons have nx: "t_next h x = Some y" and c': "chain (t_next h) (t_prev h) (Some x) (y # zs) None"
      by simp_all
    from dist Cons have ne: "x \<noteq> last (y # zs)" "x \<noteq> y" "x \<notin> set (y # zs)" "distinct (y # zs)"
      by auto
    let ?h' = "h\<lparr> t_prev := (t_prev h)(y := None, x := None), t_next := (t_next h)(x := None) \<rparr>"
    let ?d' = "d\<lparr> head := Some y \<rparr>"
    have p: "task_deque_pop h d = Some (Some x, ?h', ?d')"
      using hd tl Cons nx ne by (simp add: task_deque_pop_def)
    have c1: "chain (t_next h) ((t_prev h)(y := None)) None (y # zs) None"
      using chain_set_p [OF c' ne(4)] by simp
    have c2: "chain ((t_next h)(x := None)) ((t_prev h)(y := None, x := None)) None (y # zs) None"
      using c1 ne(3)
      by (subst chain_frame [where nx = "t_next h" and pv = "(t_prev h)(y := None)"]) auto
    have "dq_rep ?h' ?d' (y # zs)"
      using c2 ne tl Cons by (simp add: dq_rep_def last_of_Some)
    moreover have "links_frame h ?h' (set xs)"
      using xs Cons by (simp add: links_frame_def)
    ultimately show ?thesis using p xs Cons by simp
  qed
qed

lemma chain_last_prev:
  "chain nx pv p (ys @ [l]) q \<Longrightarrow> pv l = last_of p ys \<and> nx l = q"
  by (simp add: chain_append)

lemma task_deque_popback_rep:
  assumes r: "dq_rep h d xs"
  shows "\<exists>h' d'. task_deque_popback h d = Some (last_of None xs, h', d') \<and> dq_rep h' d' (butlast xs)
           \<and> links_frame h h' (set xs)
           \<and> (\<forall>x. last_of None xs = Some x \<longrightarrow> t_next h' x = None \<and> t_prev h' x = None)"
proof (cases xs rule: rev_cases)
  case Nil
  with r show ?thesis
    by (simp add: task_deque_popback_def dq_rep_def links_frame_def)
next
  case (snoc ys l)
  note xs = snoc
  from dq_rep_empty_iff [OF r] xs have hd: "head d \<noteq> None" by simp
  from r xs have tl: "tail d = Some l"
    and c: "chain (t_next h) (t_prev h) None (ys @ [l]) None" and dist: "distinct (ys @ [l])"
    by (simp_all add: dq_rep_def)
  from c have pl: "t_prev h l = last_of None ys" by (simp add: chain_append)
  from c have cy: "chain (t_next h) (t_prev h) None ys (Some l)" by (simp add: chain_append)
  show ?thesis
  proof (cases "ys = []")
    case True
    let ?h' = "h\<lparr> t_prev := (t_prev h)(l := None), t_next := (t_next h)(l := None) \<rparr>"
    have "task_deque_popback h d = Some (Some l, ?h', d\<lparr> tail := None, head := None \<rparr>)"
      using hd tl pl True by (simp add: task_deque_popback_def Let_def)
    moreover have "dq_rep ?h' (d\<lparr> tail := None, head := None \<rparr>) []"
      by (simp add: dq_rep_def)
    moreover have "links_frame h ?h' (set xs)"
      using xs by (simp add: links_frame_def)
    ultimately show ?thesis using xs True by simp
  next
    case False
    define m where "m = last ys"
    from False pl have pm: "t_prev h l = Some m" by (simp add: last_of_nonempty m_def)
    from False have min: "m \<in> set ys" by (simp add: m_def)
    with dist have ml: "m \<noteq> l" and lnot: "l \<notin> set ys" and dy: "distinct ys" by auto
    let ?h' = "h\<lparr> t_next := (t_next h)(m := None, l := None), t_prev := (t_prev h)(l := None) \<rparr>"
    let ?d' = "d\<lparr> tail := Some m \<rparr>"
    have p: "task_deque_popback h d = Some (Some l, ?h', ?d')"
      using hd tl pm ml by (simp add: task_deque_popback_def Let_def)
    have c1: "chain ((t_next h)(m := None)) (t_prev h) None ys None"
      using chain_set_q [OF cy dy False] by (simp add: m_def)
    have c2: "chain ((t_next h)(m := None, l := None)) ((t_prev h)(l := None)) None ys None"
      using c1 lnot
      by (subst chain_frame [where nx = "(t_next h)(m := None)" and pv = "t_prev h"]) auto
    have "dq_rep ?h' ?d' ys"
      using c2 dy hd r xs False
      by (simp add: dq_rep_def last_of_nonempty m_def first_of_nonempty)
    moreover have "links_frame h ?h' (set xs)"
      using xs min by (simp add: links_frame_def)
    ultimately show ?thesis using p xs by simp
  qed
qed

lemma chain_nth_next:
  assumes "chain nx pv p xs q" and "i < length xs"
  shows "nx (xs ! i) = first_of (drop (Suc i) xs) q"
proof -
  from assms(2) have "xs = take i xs @ xs ! i # drop (Suc i) xs"
    by (rule id_take_nth_drop)
  with assms(1) have "chain nx pv p (take i xs @ xs ! i # drop (Suc i) xs) q" by simp
  then show ?thesis by (simp add: chain_append)
qed

lemma first_of_drop: "first_of (drop i xs) None = (if i < length xs then Some (xs ! i) else None)"
proof (cases "i < length xs")
  case True
  then have "drop i xs = xs ! i # drop (Suc i) xs" by (rule Cons_nth_drop_Suc [symmetric])
  with True show ?thesis by simp
next
  case False then show ?thesis by simp
qed

lemma insert_find_chain:
  assumes c: "chain nx pv p xs None"
  shows "k \<le> pos \<Longrightarrow> insert_find nx (first_of (drop i xs) None) k pos
            = first_of (drop (i + (pos - k)) xs) None"
proof (induction "pos - k" arbitrary: i k)
  case 0
  then have "k = pos" by simp
  then show ?case
    by (subst insert_find.simps) (simp split: option.splits)
next
  case (Suc n)
  then have lt: "k < pos" and n: "n = pos - (k + 1)" and le: "k + 1 \<le> pos" by simp_all
  show ?case
  proof (cases "i < length xs")
    case False
    then show ?thesis
      by (subst insert_find.simps) (simp add: first_of_drop)
  next
    case True
    have "insert_find nx (first_of (drop i xs) None) k pos
          = insert_find nx (nx (xs ! i)) (k + 1) pos"
      using True lt by (subst insert_find.simps) (simp add: first_of_drop)
    also have "nx (xs ! i) = first_of (drop (Suc i) xs) None"
      by (rule chain_nth_next [OF c True])
    also have "insert_find nx (first_of (drop (Suc i) xs) None) (k + 1) pos
               = first_of (drop (Suc i + (pos - (k + 1))) xs) None"
      by (rule Suc.hyps(1) [OF n le])
    also have "Suc i + (pos - (k + 1)) = i + (pos - k)" using lt by simp
    finally show ?thesis .
  qed
qed

lemma task_deque_insert_rep:
  assumes r: "dq_rep h d xs" and t: "t \<notin> set xs" "t_next h t = None" "t_prev h t = None"
  shows "\<exists>h' d'. task_deque_insert h d t pos = Some (h', d')
           \<and> dq_rep h' d' (take (insert_position pos (length xs)) xs
                             @ t # drop (insert_position pos (length xs)) xs)
           \<and> links_frame h h' (insert t (set xs))"
proof -
  from r have c: "chain (t_next h) (t_prev h) None xs None" and dist: "distinct xs"
    and hd: "head d = first_of xs None"
    by (simp_all add: dq_rep_def)
  consider (at_front) "pos = 0 \<or> xs = []"
    | (at_back) "pos \<noteq> 0" "xs \<noteq> []" "length xs \<le> pos + 1"
    | (between) "pos \<noteq> 0" "xs \<noteq> []" "pos + 1 < length xs"
    by linarith
  then show ?thesis
  proof cases
    case at_front
    from at_front have "task_deque_insert h d t pos = task_deque_push h d t"
      using hd by (auto simp: task_deque_insert_def)
    moreover from at_front have "take (insert_position pos (length xs)) xs
                             @ t # drop (insert_position pos (length xs)) xs = t # xs"
      by (auto simp: insert_position_def)
    ultimately show ?thesis using task_deque_push_rep [OF r t] by simp
  next
    case at_back
    have f: "insert_find (t_next h) (head d) 0 pos = first_of (drop pos xs) None"
      using insert_find_chain [OF c, of 0 pos 0] hd by simp
    have "task_deque_insert h d t pos = task_deque_pushback h d t"
    proof (cases "pos < length xs")
      case False
      with f at_back hd show ?thesis
        by (simp add: task_deque_insert_def first_of_drop first_of_None)
    next
      case True
      with at_back have "t_next h (xs ! pos) = None"
        using chain_nth_next [OF c True] by simp
      with f at_back hd True show ?thesis
        by (simp add: task_deque_insert_def first_of_drop first_of_None)
    qed
    moreover from at_back have "take (insert_position pos (length xs)) xs
                             @ t # drop (insert_position pos (length xs)) xs = xs @ [t]"
      by (auto simp: insert_position_def)
    ultimately show ?thesis using task_deque_pushback_rep [OF r t] by simp
  next
    case between
    define as where "as = take (pos + 1) xs"
    define bs where "bs = drop (pos + 1) xs"
    define tmp where "tmp = xs ! pos"
    define n where "n = xs ! (pos + 1)"
    have xs: "xs = as @ bs" by (simp add: as_def bs_def)
    have asne: "as \<noteq> []" and bsne: "bs \<noteq> []" using between by (auto simp: as_def bs_def)
    have la: "last as = tmp"
      using between by (simp add: as_def tmp_def last_conv_nth min_def)
    have hb: "hd bs = n" using between by (simp add: bs_def n_def hd_drop_conv_nth)
    have f: "insert_find (t_next h) (head d) 0 pos = Some tmp"
      using insert_find_chain [OF c, of 0 pos 0] hd between by (simp add: first_of_drop tmp_def)
    have nt: "t_next h tmp = Some n"
      using chain_nth_next [OF c, of pos] between by (simp add: first_of_drop tmp_def n_def)
    from dq_rep_empty_iff [OF r] between have hdtl: "head d \<noteq> None" "tail d \<noteq> None" by simp_all
    let ?nx = "(t_next h)(t := Some n, tmp := Some t)"
    let ?pv = "(t_prev h)(n := Some t, t := Some tmp)"
    let ?h' = "h\<lparr> t_next := ?nx, t_prev := ?pv \<rparr>"
    have tin: "tmp \<in> set as" "n \<in> set bs" using la hb asne bsne by auto
    from dist xs have da: "distinct as" and db: "distinct bs" and dj: "set as \<inter> set bs = {}"
      by auto
    from t xs have ta: "t \<notin> set as" and tb: "t \<notin> set bs" by auto
    from tin ta tb have ne: "t \<noteq> tmp" "t \<noteq> n" by auto
    from tin dj have ne2: "tmp \<notin> set bs" "n \<notin> set as" by auto
    have res: "task_deque_insert h d t pos = Some (?h', d)"
      using between hd f nt hdtl ne
      by (simp add: task_deque_insert_def first_of_None Let_def fun_upd_twist)
    from c xs have ca: "chain (t_next h) (t_prev h) None as (Some n)"
      and cb: "chain (t_next h) (t_prev h) (Some tmp) bs None"
      using asne bsne la hb by (simp_all add: chain_append last_of_nonempty first_of_nonempty)
    have ca1: "chain ((t_next h)(tmp := Some t)) (t_prev h) None as (Some t)"
      using chain_set_q [OF ca da asne] la by simp
    have ca2: "chain ?nx ?pv None as (Some t)"
      using ca1 ta ne2
      by (subst chain_frame [where nx = "(t_next h)(tmp := Some t)" and pv = "t_prev h"]) auto
    have cb1: "chain (t_next h) ((t_prev h)(n := Some t)) (Some t) bs None"
      using chain_set_p [OF cb db bsne] hb by simp
    have cb2: "chain ?nx ?pv (Some t) bs None"
      using cb1 tb ne2
      by (subst chain_frame [where nx = "t_next h" and pv = "(t_prev h)(n := Some t)"]) auto
    have cc: "chain ?nx ?pv None (as @ t # bs) None"
      using ca2 cb2 ne asne bsne la hb
      by (simp add: chain_append last_of_nonempty first_of_nonempty)
    have "dq_rep ?h' d (as @ t # bs)"
      using r cc xs ta tb asne bsne da db dj
      by (auto simp add: dq_rep_def first_of_nonempty last_of_nonempty)
    moreover have "links_frame h ?h' (insert t (set xs))"
      using tin xs by (auto simp add: links_frame_def)
    moreover have "take (insert_position pos (length xs)) xs
                     @ t # drop (insert_position pos (length xs)) xs = as @ t # bs"
      using between by (simp add: insert_position_def as_def bs_def min_def)
    ultimately show ?thesis using res by simp
  qed
qed

lemma task_deque_move_rep:
  assumes rd: "dq_rep h dst ys" and rs: "dq_rep h src xs" and dj: "set xs \<inter> set ys = {}"
  shows "\<exists>h' dst' src'. task_deque_move h dst src = (DART_OK, h', dst', src')
           \<and> dq_rep h' dst' (xs @ ys) \<and> dq_rep h' src' []
           \<and> links_frame h h' (set xs \<union> set ys)"
proof (cases "xs = []")
  case True
  with rs have "head src = None" by (simp add: dq_rep_def)
  then have "task_deque_move h dst src = (DART_OK, h, dst, src)"
    by (simp add: task_deque_move_def)
  with rd rs True show ?thesis by (simp add: links_frame_refl)
next
  case False
  define sh where "sh = hd xs"
  define st where "st = last xs"
  from rs False have hs: "head src = Some sh" "tail src = Some st"
    and cs: "chain (t_next h) (t_prev h) None xs None" and ds: "distinct xs"
    by (simp_all add: dq_rep_def first_of_nonempty last_of_nonempty sh_def st_def)
  from rd have cd: "chain (t_next h) (t_prev h) None ys None" and dd: "distinct ys"
    and hdd: "head dst = first_of ys None" and tld: "tail dst = last_of None ys"
    by (simp_all add: dq_rep_def)
  have e: "dq_rep h' (src\<lparr> tail := None, head := None \<rparr>) []" for h' :: "'a task_links_scheme"
    by (simp add: dq_rep_def)
  from False have stin: "st \<in> set xs" by (simp add: st_def)
  show ?thesis
  proof (cases "ys = []")
    case True
    have m: "task_deque_move h dst src
             = (DART_OK, h, dst\<lparr> tail := Some st, head := Some sh \<rparr>,
                src\<lparr> tail := None, head := None \<rparr>)"
      using hs hdd True by (simp add: task_deque_move_def)
    have "dq_rep h (dst\<lparr> tail := Some st, head := Some sh \<rparr>) (xs @ ys)"
      using True cs ds False
      by (simp add: dq_rep_def first_of_nonempty last_of_nonempty sh_def st_def)
    with m e show ?thesis by (simp add: links_frame_refl)
  next
    case ysne: False
    define dh where "dh = hd ys"
    from ysne hdd have hd': "head dst = Some dh" by (simp add: first_of_nonempty dh_def)
    from ysne have dhin: "dh \<in> set ys" by (simp add: dh_def)
    let ?nx = "(t_next h)(st := Some dh)"
    let ?pv = "(t_prev h)(dh := Some st)"
    let ?h' = "h\<lparr> t_next := ?nx, t_prev := ?pv \<rparr>"
    have m: "task_deque_move h dst src
             = (DART_OK, ?h', dst\<lparr> head := Some sh \<rparr>, src\<lparr> tail := None, head := None \<rparr>)"
      using hs hd' by (simp add: task_deque_move_def)
    have c1: "chain ?nx (t_prev h) None xs (Some dh)"
      using chain_set_q [OF cs ds False] by (simp add: st_def)
    have c2: "chain ?nx ?pv None xs (Some dh)"
      using c1 dhin dj
      by (subst chain_frame [where nx = ?nx and pv = "t_prev h"]) auto
    have c3: "chain (t_next h) ?pv (Some st) ys None"
      using chain_set_p [OF cd dd ysne] by (simp add: dh_def)
    have c4: "chain ?nx ?pv (Some st) ys None"
      using c3 stin dj
      by (subst chain_frame [where nx = "t_next h" and pv = ?pv]) auto
    have "chain ?nx ?pv None (xs @ ys) None"
      using c2 c4 False ysne by (simp add: chain_append first_of_nonempty last_of_nonempty dh_def st_def)
    then have "dq_rep ?h' (dst\<lparr> head := Some sh \<rparr>) (xs @ ys)"
      using ds dd dj tld False ysne
      by (simp add: dq_rep_def first_of_nonempty last_of_nonempty sh_def)
    moreover have "links_frame h ?h' (set xs \<union> set ys)"
      using stin dhin by (simp add: links_frame_def)
    ultimately show ?thesis using m e by simp
  qed
qed

lemma chain_unlink:
  assumes c: "chain nx pv None (as @ t # bs) None" and d: "distinct (as @ t # bs)"
  defines "nx1 \<equiv> (case pv t of None \<Rightarrow> nx | Some p \<Rightarrow> nx(p := nx t))"
  defines "pv1 \<equiv> (case nx t of None \<Rightarrow> pv | Some n \<Rightarrow> pv(n := pv t))"
  shows "pv t = last_of None as" and "nx t = first_of bs None"
    and "chain (nx1(t := None)) (pv1(t := None)) None (as @ bs) None"
    and "\<forall>x. x \<notin> set (as @ t # bs) \<longrightarrow> (nx1(t := None)) x = nx x \<and> (pv1(t := None)) x = pv x"
proof -
  from c have ca: "chain nx pv None as (Some t)" and pt: "pv t = last_of None as"
    and nt: "nx t = first_of bs None" and cb: "chain nx pv (Some t) bs None"
    by (simp_all add: chain_append)
  from d have da: "distinct as" and db: "distinct bs" and ta: "t \<notin> set as" and tb: "t \<notin> set bs"
    and dj: "set as \<inter> set bs = {}" by auto
  show "pv t = last_of None as" by (rule pt)
  show "nx t = first_of bs None" by (rule nt)
  have A: "chain (nx1(t := None)) (pv1(t := None)) None as (first_of bs None)"
  proof (cases "as = []")
    case True then show ?thesis by simp
  next
    case False
    then have n1: "nx1 = nx(last as := first_of bs None)"
      by (simp add: nx1_def pt nt last_of_nonempty)
    have C: "chain (nx(last as := first_of bs None)) pv None as (first_of bs None)"
      by (rule chain_set_q [OF ca da False])
    have F: "\<forall>x \<in> set as. (nx1(t := None)) x = (nx(last as := first_of bs None)) x
                     \<and> (pv1(t := None)) x = pv x"
    proof
      fix x assume x: "x \<in> set as"
      with ta have xt: "x \<noteq> t" by auto
      have "pv1 x = pv x"
      proof (cases bs)
        case Nil then show ?thesis by (simp add: pv1_def nt)
      next
        case (Cons b bs')
        with dj x have "x \<noteq> b" by auto
        with Cons show ?thesis by (simp add: pv1_def nt)
      qed
      with xt n1 show "(nx1(t := None)) x = (nx(last as := first_of bs None)) x
                     \<and> (pv1(t := None)) x = pv x" by simp
    qed
    show ?thesis unfolding chain_frame [OF F] by (rule C)
  qed
  have B: "chain (nx1(t := None)) (pv1(t := None)) (last_of None as) bs None"
  proof (cases "bs = []")
    case True then show ?thesis by simp
  next
    case False
    then have p1: "pv1 = pv(hd bs := last_of None as)"
      by (simp add: pv1_def pt nt first_of_nonempty)
    have C: "chain nx (pv(hd bs := last_of None as)) (last_of None as) bs None"
      by (rule chain_set_p [OF cb db False])
    have F: "\<forall>x \<in> set bs. (nx1(t := None)) x = nx x
                     \<and> (pv1(t := None)) x = (pv(hd bs := last_of None as)) x"
    proof
      fix x assume x: "x \<in> set bs"
      with tb have xt: "x \<noteq> t" by auto
      have "nx1 x = nx x"
      proof (cases "as = []")
        case True then show ?thesis by (simp add: nx1_def pt)
      next
        case False
        then have "last as \<in> set as" by simp
        with dj x have "x \<noteq> last as" by auto
        with False show ?thesis by (simp add: nx1_def pt last_of_nonempty)
      qed
      with xt p1 show "(nx1(t := None)) x = nx x
                     \<and> (pv1(t := None)) x = (pv(hd bs := last_of None as)) x" by simp
    qed
    show ?thesis unfolding chain_frame [OF F] by (rule C)
  qed
  from A B show "chain (nx1(t := None)) (pv1(t := None)) None (as @ bs) None"
    by (simp add: chain_append)
  show "\<forall>x. x \<notin> set (as @ t # bs) \<longrightarrow> (nx1(t := None)) x = nx x \<and> (pv1(t := None)) x = pv x"
  proof (intro allI impI)
    fix x assume x: "x \<notin> set (as @ t # bs)"
    have "nx1 x = nx x"
    proof (cases "as = []")
      case True then show ?thesis by (simp add: nx1_def pt)
    next
      case False
      then have "last as \<in> set as" by simp
      with x have "x \<noteq> last as" by auto
      with False show ?thesis by (simp add: nx1_def pt last_of_nonempty)
    qed
    moreover have "pv1 x = pv x"
    proof (cases bs)
      case Nil then show ?thesis by (simp add: pv1_def nt)
    next
      case (Cons b bs')
      with x have "x \<noteq> b" by auto
      with Cons show ?thesis by (simp add: pv1_def nt)
    qed
    ultimately show "(nx1(t := None)) x = nx x \<and> (pv1(t := None)) x = pv x"
      using x by simp
  qed
qed

lemma links_frame_prio: "links_frame h h' S \<Longrightarrow> t_prio h' = t_prio h"
  unfolding links_frame_def by (metis task_links.select_convs(3) task_links.surjective task_links.update_convs(1,2))

lemma tq_rep_frame:
  "tq_rep h tq hs ls \<Longrightarrow> links_frame h h' S \<Longrightarrow> S \<inter> (set hs \<union> set ls) = {} \<Longrightarrow> tq_rep h' tq hs ls"
  unfolding tq_rep_def
  by (auto simp: links_frame_prio intro: dq_rep_frame)

lemma tq_add_rep:
  fixes h :: "'a task_links_scheme"
  assumes f: "\<And>(h::'a task_links_scheme) d xs. dq_rep h d xs \<Longrightarrow> t \<notin> set xs \<Longrightarrow> t_next h t = None
                \<Longrightarrow> t_prev h t = None
                \<Longrightarrow> \<exists>h' d'. f h d = Some (h', d') \<and> dq_rep h' d' (g xs)
                       \<and> links_frame h h' (insert t (set xs))"
      and g: "\<And>xs. set (g xs) = insert t (set xs)"
      and r: "tq_rep h tq hs ls" and t: "t \<notin> set hs \<union> set ls"
  shows "\<exists>h' tq'.
           (let h1 = h\<lparr> t_next := (t_next h)(t := None) \<rparr>;
                h2 = h1\<lparr> t_prev := (t_prev h1)(t := None) \<rparr> in
            if t_prio h2 t = DART_PRIO_HIGH
            then map_option (\<lambda>(h3, d). (h3, tq\<lparr> highprio := d \<rparr>)) (f h2 (highprio tq))
            else map_option (\<lambda>(h3, d). (h3, tq\<lparr> lowprio := d \<rparr>)) (f h2 (lowprio tq)))
           = Some (h', tq')
         \<and> tq_rep h' tq' (if t_prio h t = DART_PRIO_HIGH then g hs else hs)
                          (if t_prio h t = DART_PRIO_HIGH then ls else g ls)
         \<and> links_frame h h' (insert t (set hs \<union> set ls))"
proof -
  define h2 where "h2 = h\<lparr> t_next := (t_next h)(t := None), t_prev := (t_prev h)(t := None) \<rparr>"
  have fr0: "links_frame h h2 {t}" by (simp add: links_frame_def h2_def)
  from t have "{t} \<inter> (set hs \<union> set ls) = {}" by auto
  from tq_rep_frame [OF r fr0 this] have r2: "tq_rep h2 tq hs ls" .
  have l2: "t_next h2 t = None" "t_prev h2 t = None" and p2: "t_prio h2 = t_prio h"
    by (simp_all add: h2_def)
  from r2 have rh: "dq_rep h2 (highprio tq) hs" and rl: "dq_rep h2 (lowprio tq) ls"
    and dj: "set hs \<inter> set ls = {}"
    and ph: "\<forall>x \<in> set hs. t_prio h2 x = DART_PRIO_HIGH"
    and pl: "\<forall>x \<in> set ls. t_prio h2 x \<noteq> DART_PRIO_HIGH"
    by (simp_all add: tq_rep_def)
  from t have th: "t \<notin> set hs" and tl: "t \<notin> set ls" by auto
  show ?thesis
  proof (cases "t_prio h t = DART_PRIO_HIGH")
    case True
    from f [OF rh th l2] obtain h' d' where o: "f h2 (highprio tq) = Some (h', d')"
      and rd: "dq_rep h' d' (g hs)" and fr: "links_frame h2 h' (insert t (set hs))" by blast
    have p': "t_prio h' = t_prio h" using links_frame_prio [OF fr] p2 by simp
    have "insert t (set hs) \<inter> set ls = {}" using dj tl by auto
    from dq_rep_frame [OF rl fr this] have rl': "dq_rep h' (lowprio tq) ls" .
    have "tq_rep h' (tq\<lparr> highprio := d' \<rparr>) (g hs) ls"
      using rd rl' dj tl ph pl True p' p2 by (auto simp: tq_rep_def g)
    moreover have "links_frame h h' (insert t (set hs \<union> set ls))"
      using links_frame_trans [OF fr0 fr] by (rule links_frame_mono) auto
    ultimately show ?thesis using o True p2
      by (simp add: h2_def [symmetric])
  next
    case False
    from f [OF rl tl l2] obtain h' d' where o: "f h2 (lowprio tq) = Some (h', d')"
      and rd: "dq_rep h' d' (g ls)" and fr: "links_frame h2 h' (insert t (set ls))" by blast
    have p': "t_prio h' = t_prio h" using links_frame_prio [OF fr] p2 by simp
    have "insert t (set ls) \<inter> set hs = {}" using dj th by auto
    from dq_rep_frame [OF rh fr this] have rh': "dq_rep h' (highprio tq) hs" .
    have "tq_rep h' (tq\<lparr> lowprio := d' \<rparr>) hs (g ls)"
      using rd rh' dj th ph pl False p' p2 by (auto simp: tq_rep_def g)
    moreover have "links_frame h h' (insert t (set hs \<union> set ls))"
      using links_frame_trans [OF fr0 fr] by (rule links_frame_mono) auto
    ultimately show ?thesis using o False p2
      by (simp add: h2_def [symmetric])
  qed
qed

lemma tq_add_rep':
  fixes h :: "'a task_links_scheme"
  assumes f: "\<And>(h::'a task_links_scheme) d xs. dq_rep h d xs \<Longrightarrow> t \<notin> set xs \<Longrightarrow> t_next h t = None
                \<Longrightarrow> t_prev h t = None
                \<Longrightarrow> \<exists>h' d'. f h d = Some (h', d') \<and> dq_rep h' d' (g xs)
                       \<and> links_frame h h' (insert t (set xs))"
      and g: "\<And>xs. set (g xs) = insert t (set xs)"
      and r: "tq_rep h tq hs ls" and t: "t \<notin> set hs \<union> set ls"
  shows "\<exists>h' tq'. tq_add f h tq t = Some (h', tq')
         \<and> tq_rep h' tq' (if t_prio h t = DART_PRIO_HIGH then g hs else hs)
                          (if t_prio h t = DART_PRIO_HIGH then ls else g ls)
         \<and> links_frame h h' (insert t (set hs \<union> set ls))"
  unfolding tq_add_def by (rule tq_add_rep [OF f g r t])

lemma push_unsafe_tq_add:
  "dart_tasking_taskqueue_push_unsafe h tq t =
     (if Some t = head (highprio tq) \<or> Some t = head (lowprio tq) then None
      else tq_add (\<lambda>h d. task_deque_push h d t) h tq t)"
  by (simp add: dart_tasking_taskqueue_push_unsafe_def tq_add_def)

lemma pushback_unsafe_tq_add:
  "dart_tasking_taskqueue_pushback_unsafe h tq t = tq_add (\<lambda>h d. task_deque_pushback h d t) h tq t"
  by (simp add: dart_tasking_taskqueue_pushback_unsafe_def tq_add_def)

lemma insert_unsafe_tq_add:
  "dart_tasking_taskqueue_insert_unsafe h tq t pos = tq_add (\<lambda>h d. task_deque_insert h d t pos) h tq t"
  by (simp add: dart_tasking_taskqueue_insert_unsafe_def tq_add_def)

lemma pop_unsafe_tq_take:
  "dart_tasking_taskqueue_pop_unsafe h tq = tq_take task_deque_pop h tq"
  by (simp add: dart_tasking_taskqueue_pop_unsafe_def tq_take_def)

lemma popback_unsafe_tq_take:
  "dart_tasking_taskqueue_popback_unsafe h tq = tq_take task_deque_popback h tq"
  by (simp add: dart_tasking_taskqueue_popback_unsafe_def tq_take_def)

lemma taskqueue_push_unsafe_rep:
  assumes r: "tq_rep h tq hs ls" and t: "t \<notin> set hs \<union> set ls"
  shows "\<exists>h' tq'. dart_tasking_taskqueue_push_unsafe h tq t = Some (h', tq')
         \<and> tq_rep h' tq' (if t_prio h t = DART_PRIO_HIGH then t # hs else hs)
                          (if t_prio h t = DART_PRIO_HIGH then ls else t # ls)
         \<and> links_frame h h' (insert t (set hs \<union> set ls))"
proof -
  from r have "head (highprio tq) = first_of hs None" "head (lowprio tq) = first_of ls None"
    by (simp_all add: tq_rep_def dq_rep_def)
  with t have nh: "\<not> (Some t = head (highprio tq) \<or> Some t = head (lowprio tq))"
    by (metis UnCI first_of_in)
  have "\<And>(h::'a task_links_scheme) d xs. dq_rep h d xs \<Longrightarrow> t \<notin> set xs \<Longrightarrow> t_next h t = None
                \<Longrightarrow> t_prev h t = None
                \<Longrightarrow> \<exists>h' d'. task_deque_push h d t = Some (h', d') \<and> dq_rep h' d' ((#) t xs)
                       \<and> links_frame h h' (insert t (set xs))"
    by (rule task_deque_push_rep)
  then have "\<exists>h' tq'. tq_add (\<lambda>h d. task_deque_push h d t) h tq t = Some (h', tq')
         \<and> tq_rep h' tq' (if t_prio h t = DART_PRIO_HIGH then t # hs else hs)
                          (if t_prio h t = DART_PRIO_HIGH then ls else t # ls)
         \<and> links_frame h h' (insert t (set hs \<union> set ls))"
    using tq_add_rep' [where f = "\<lambda>h d. task_deque_push h d t" and g = "(#) t", OF _ list.set(2) r t]
    by blast
  moreover have "dart_tasking_taskqueue_push_unsafe h tq t
                 = tq_add (\<lambda>h d. task_deque_push h d t) h tq t"
    using nh by (simp add: push_unsafe_tq_add)
  ultimately show ?thesis by (simp only:)
qed

lemma taskqueue_pushback_unsafe_rep:
  assumes r: "tq_rep h tq hs ls" and t: "t \<notin> set hs \<union> set ls"
  shows "\<exists>h' tq'. dart_tasking_taskqueue_pushback_unsafe h tq t = Some (h', tq')
         \<and> tq_rep h' tq' (if t_prio h t = DART_PRIO_HIGH then hs @ [t] else hs)
                          (if t_prio h t = DART_PRIO_HIGH then ls else ls @ [t])
         \<and> links_frame h h' (insert t (set hs \<union> set ls))"
proof -
  have "\<And>(h::'a task_links_scheme) d xs. dq_rep h d xs \<Longrightarrow> t \<notin> set xs \<Longrightarrow> t_next h t = None
                \<Longrightarrow> t_prev h t = None
                \<Longrightarrow> \<exists>h' d'. task_deque_pushback h d t = Some (h', d') \<and> dq_rep h' d' (xs @ [t])
                       \<and> links_frame h h' (insert t (set xs))"
    by (rule task_deque_pushback_rep)
  moreover have G: "\<And>xs. set (xs @ [t]) = insert t (set xs)" by simp
  ultimately have "\<exists>h' tq'. tq_add (\<lambda>h d. task_deque_pushback h d t) h tq t = Some (h', tq')
         \<and> tq_rep h' tq' (if t_prio h t = DART_PRIO_HIGH then hs @ [t] else hs)
                          (if t_prio h t = DART_PRIO_HIGH then ls else ls @ [t])
         \<and> links_frame h h' (insert t (set hs \<union> set ls))"
    using tq_add_rep' [where f = "\<lambda>h d. task_deque_pushback h d t" and g = "\<lambda>xs. xs @ [t]", OF _ G r t]
    by blast
  then show ?thesis by (simp only: pushback_unsafe_tq_add)
qed


lemma set_insert_at: "set (insert_at pos t xs) = insert t (set xs)"
proof -
  have "set (take k xs) \<union> set (drop k xs) = set xs" for k
    by (metis append_take_drop_id set_append)
  then show ?thesis by (auto simp: insert_at_def)
qed

lemma taskqueue_insert_unsafe_rep:
  assumes r: "tq_rep h tq hs ls" and t: "t \<notin> set hs \<union> set ls"
  shows "\<exists>h' tq'. dart_tasking_taskqueue_insert_unsafe h tq t pos = Some (h', tq')
         \<and> tq_rep h' tq' (if t_prio h t = DART_PRIO_HIGH then insert_at pos t hs else hs)
                          (if t_prio h t = DART_PRIO_HIGH then ls else insert_at pos t ls)
         \<and> links_frame h h' (insert t (set hs \<union> set ls))"
proof -
  have "\<And>(h::'a task_links_scheme) d xs. dq_rep h d xs \<Longrightarrow> t \<notin> set xs \<Longrightarrow> t_next h t = None
                \<Longrightarrow> t_prev h t = None
                \<Longrightarrow> \<exists>h' d'. task_deque_insert h d t pos = Some (h', d')
                       \<and> dq_rep h' d' (insert_at pos t xs)
                       \<and> links_frame h h' (insert t (set xs))"
    unfolding insert_at_def by (rule task_deque_insert_rep)
  then have "\<exists>h' tq'. tq_add (\<lambda>h d. task_deque_insert h d t pos) h tq t = Some (h', tq')
         \<and> tq_rep h' tq' (if t_prio h t = DART_PRIO_HIGH then insert_at pos t hs else hs)
                          (if t_prio h t = DART_PRIO_HIGH then ls else insert_at pos t ls)
         \<and> links_frame h h' (insert t (set hs \<union> set ls))"
    using tq_add_rep' [where f = "\<lambda>h d. task_deque_insert h d t pos" and g = "insert_at pos t", OF _ set_insert_at r t]
    by blast
  then show ?thesis by (simp only: insert_unsafe_tq_add)
qed

lemma tq_take_rep:
  fixes h :: "'a task_links_scheme"
  assumes f: "\<And>(h::'a task_links_scheme) d xs. dq_rep h d xs
                \<Longrightarrow> \<exists>h' d'. f h d = Some (sel xs, h', d') \<and> dq_rep h' d' (g xs)
                       \<and> links_frame h h' (set xs)"
      and g: "\<And>xs. set (g xs) \<subseteq> set xs"
      and sel: "\<And>xs. sel xs = None \<longleftrightarrow> xs = []"
      and r: "tq_rep h tq hs ls"
  shows "\<exists>h' tq'. tq_take f h tq
           = Some (if hs = [] then sel ls else sel hs, h', tq')
         \<and> tq_rep h' tq' (g hs) (if hs = [] then g ls else ls)
         \<and> links_frame h h' (set hs \<union> set ls)"
proof -
  from r have rh: "dq_rep h (highprio tq) hs" and rl: "dq_rep h (lowprio tq) ls"
    and dj: "set hs \<inter> set ls = {}"
    and ph: "\<forall>x \<in> set hs. t_prio h x = DART_PRIO_HIGH"
    and pl: "\<forall>x \<in> set ls. t_prio h x \<noteq> DART_PRIO_HIGH"
    by (simp_all add: tq_rep_def)
  from f [OF rh] obtain h1 d1 where o1: "f h (highprio tq) = Some (sel hs, h1, d1)"
    and r1: "dq_rep h1 d1 (g hs)" and fr1: "links_frame h h1 (set hs)" by blast
  have p1: "t_prio h1 = t_prio h" by (rule links_frame_prio [OF fr1])
  from dq_rep_frame [OF rl fr1] dj have rl1: "dq_rep h1 (lowprio tq) ls" by blast
  show ?thesis
  proof (cases "hs = []")
    case False
    then have s: "sel hs \<noteq> None" by (simp add: sel)
    have "tq_rep h1 (tq\<lparr> highprio := d1 \<rparr>) (g hs) ls"
      using r1 rl1 dj ph pl p1 g [of hs] by (auto simp: tq_rep_def)
    moreover have "links_frame h h1 (set hs \<union> set ls)"
      using fr1 by (rule links_frame_mono) auto
    ultimately show ?thesis using o1 s False by (auto simp: Let_def tq_take_def)
  next
    case True
    then have s: "sel hs = None" by (simp add: sel)
    from f [OF rl1] obtain h2 d2 where o2: "f h1 (lowprio tq) = Some (sel ls, h2, d2)"
      and r2: "dq_rep h2 d2 (g ls)" and fr2: "links_frame h1 h2 (set ls)" by blast
    have p2: "t_prio h2 = t_prio h" using links_frame_prio [OF fr2] p1 by simp
    from True g [of hs] have gh: "g hs = []" by simp
    from dq_rep_frame [OF r1 fr2] gh have rh2: "dq_rep h2 d1 (g hs)" by simp
    have "tq_rep h2 (tq\<lparr> highprio := d1, lowprio := d2 \<rparr>) (g hs) (g ls)"
      using r2 rh2 gh pl p2 g [of ls] by (auto simp: tq_rep_def)
    moreover have "links_frame h h2 (set hs \<union> set ls)"
      using links_frame_trans [OF fr1 fr2] .
    ultimately show ?thesis using o1 o2 s True by (auto simp: Let_def tq_take_def)
  qed
qed

lemma taskqueue_pop_unsafe_rep:
  assumes r: "tq_rep h tq hs ls"
  shows "\<exists>h' tq'. dart_tasking_taskqueue_pop_unsafe h tq
            = Some (if hs = [] then first_of ls None else first_of hs None, h', tq')
         \<and> tq_rep h' tq' (tl hs) (if hs = [] then tl ls else ls)
         \<and> links_frame h h' (set hs \<union> set ls)"
proof -
  have a: "\<And>(h::'a task_links_scheme) d xs. dq_rep h d xs
                \<Longrightarrow> \<exists>h' d'. task_deque_pop h d = Some (first_of xs None, h', d') \<and> dq_rep h' d' (tl xs)
                       \<and> links_frame h h' (set xs)"
    using task_deque_pop_rep by blast
  have b: "\<And>xs::nat list. set (tl xs) \<subseteq> set xs" proof - fix xs :: "nat list" show "set (tl xs) \<subseteq> set xs" by (cases xs) auto qed
  show ?thesis unfolding pop_unsafe_tq_take
    by (rule tq_take_rep [where f = task_deque_pop and sel = "\<lambda>xs. first_of xs None" and g = tl,
                    OF a b first_of_None r])
qed

lemma taskqueue_popback_unsafe_rep:
  assumes r: "tq_rep h tq hs ls"
  shows "\<exists>h' tq'. dart_tasking_taskqueue_popback_unsafe h tq
            = Some (if hs = [] then last_of None ls else last_of None hs, h', tq')
         \<and> tq_rep h' tq' (butlast hs) (if hs = [] then butlast ls else ls)
         \<and> links_frame h h' (set hs \<union> set ls)"
proof -
  have a: "\<And>(h::'a task_links_scheme) d xs. dq_rep h d xs
                \<Longrightarrow> \<exists>h' d'. task_deque_popback h d = Some (last_of None xs, h', d')
                       \<and> dq_rep h' d' (butlast xs) \<and> links_frame h h' (set xs)"
    using task_deque_popback_rep by blast
  have b: "\<And>xs::nat list. set (butlast xs) \<subseteq> set xs" proof - fix xs :: "nat list" show "set (butlast xs) \<subseteq> set xs" by (auto dest: in_set_butlastD) qed
  show ?thesis unfolding popback_unsafe_tq_take
    by (rule tq_take_rep [where f = task_deque_popback and sel = "last_of None" and g = butlast,
                    OF a b last_of_None r])
qed

lemma taskqueue_move_unsafe_rep:
  assumes rd: "tq_rep h dst dh dl" and rs: "tq_rep h src sh sl"
      and dj: "(set dh \<union> set dl) \<inter> (set sh \<union> set sl) = {}"
  shows "\<exists>h' dst' src'. dart_tasking_taskqueue_move_unsafe h dst src = (h', dst', src')
           \<and> tq_rep h' dst' (sh @ dh) (sl @ dl) \<and> tq_rep h' src' [] []
           \<and> links_frame h h' (set dh \<union> set dl \<union> set sh \<union> set sl)"
proof -
  from rd have d: "dq_rep h (highprio dst) dh" "dq_rep h (lowprio dst) dl" "set dh \<inter> set dl = {}"
    "\<forall>x \<in> set dh. t_prio h x = DART_PRIO_HIGH" "\<forall>x \<in> set dl. t_prio h x \<noteq> DART_PRIO_HIGH"
    by (simp_all add: tq_rep_def)
  from rs have s: "dq_rep h (highprio src) sh" "dq_rep h (lowprio src) sl" "set sh \<inter> set sl = {}"
    "\<forall>x \<in> set sh. t_prio h x = DART_PRIO_HIGH" "\<forall>x \<in> set sl. t_prio h x \<noteq> DART_PRIO_HIGH"
    by (simp_all add: tq_rep_def)
  from dj have "set sh \<inter> set dh = {}" by auto
  from task_deque_move_rep [OF d(1) s(1) this]
  obtain h1 dh' sh' where m1: "task_deque_move h (highprio dst) (highprio src) = (DART_OK, h1, dh', sh')"
    and r1: "dq_rep h1 dh' (sh @ dh)" "dq_rep h1 sh' []"
    and f1: "links_frame h h1 (set sh \<union> set dh)" by blast
  have "(set sh \<union> set dh) \<inter> set dl = {}" using dj d(3) by auto
  from dq_rep_frame [OF d(2) f1 this] have dl1: "dq_rep h1 (lowprio dst) dl" .
  have "(set sh \<union> set dh) \<inter> set sl = {}" using dj s(3) by auto
  from dq_rep_frame [OF s(2) f1 this] have sl1: "dq_rep h1 (lowprio src) sl" .
  from dj have "set sl \<inter> set dl = {}" by auto
  from task_deque_move_rep [OF dl1 sl1 this]
  obtain h2 dl' sl' where m2: "task_deque_move h1 (lowprio dst) (lowprio src) = (DART_OK, h2, dl', sl')"
    and r2: "dq_rep h2 dl' (sl @ dl)" "dq_rep h2 sl' []"
    and f2: "links_frame h1 h2 (set sl \<union> set dl)" by blast
  have "(set sl \<union> set dl) \<inter> set (sh @ dh) = {}" using dj d(3) s(3) by auto
  from dq_rep_frame [OF r1(1) f2 this] have dh2: "dq_rep h2 dh' (sh @ dh)" .
  from dq_rep_frame [OF r1(2) f2] have sh2: "dq_rep h2 sh' []" by simp
  have p: "t_prio h2 = t_prio h" using links_frame_prio [OF f1] links_frame_prio [OF f2] by simp
  have m: "dart_tasking_taskqueue_move_unsafe h dst src
           = (h2, dst\<lparr> highprio := dh', lowprio := dl' \<rparr>, src\<lparr> highprio := sh', lowprio := sl' \<rparr>)"
    by (simp add: dart_tasking_taskqueue_move_unsafe_def m1 m2)
  have "tq_rep h2 (dst\<lparr> highprio := dh', lowprio := dl' \<rparr>) (sh @ dh) (sl @ dl)"
    using dh2 r2(1) d s dj p by (auto simp: tq_rep_def)
  moreover have "tq_rep h2 (src\<lparr> highprio := sh', lowprio := sl' \<rparr>) [] []"
    using sh2 r2(2) by (simp add: tq_rep_def)
  moreover have "links_frame h h2 (set dh \<union> set dl \<union> set sh \<union> set sl)"
    using links_frame_trans [OF f1 f2] by (rule links_frame_mono) auto
  ultimately show ?thesis using m by simp
qed

lemma removeAll_split:
  "distinct (as @ t # bs) \<Longrightarrow> removeAll t (as @ t # bs) = as @ bs"
  by (simp add: removeAll_id)

lemma removeAll_notin: "t \<notin> set xs \<Longrightarrow> removeAll t xs = xs"
  by (rule removeAll_id)

lemma dq_unlink:
  fixes h :: "'a task_links_scheme"
  assumes r: "dq_rep h d xs" and tin: "t \<in> set xs"
  defines "prev \<equiv> t_prev h t" and "next \<equiv> t_next h t"
  defines "nx1 \<equiv> (case prev of None \<Rightarrow> t_next h | Some p \<Rightarrow> (t_next h)(p := next))"
  defines "pv1 \<equiv> (case next of None \<Rightarrow> t_prev h | Some n \<Rightarrow> (t_prev h)(n := prev))"
  defines "h' \<equiv> h\<lparr> t_next := nx1(t := None), t_prev := pv1(t := None) \<rparr>"
  defines "d1 \<equiv> (if Some t = head d then d\<lparr> head := next \<rparr> else d)"
  defines "d2 \<equiv> (if Some t = tail d1 then d1\<lparr> tail := prev \<rparr> else d1)"
  shows "dq_rep h' d2 (removeAll t xs)" and "links_frame h h' (set xs)"
proof -
  from tin obtain as bs where xs: "xs = as @ t # bs" by (auto dest: split_list)
  from r xs have c: "chain (t_next h) (t_prev h) None (as @ t # bs) None"
    and dist: "distinct (as @ t # bs)"
    and hd: "head d = first_of as (Some t)" and tl: "tail d = last_of (Some t) bs"
    by (simp_all add: dq_rep_def)
  note u = chain_unlink [OF c dist]
  from u(1,2) have pn: "prev = last_of None as" "next = first_of bs None"
    by (simp_all add: prev_def next_def)
  have ch: "chain (t_next h') (t_prev h') None (as @ bs) None"
    unfolding h'_def nx1_def pv1_def prev_def next_def using u(3) by simp
  from dist have ta: "t \<notin> set as" and tb: "t \<notin> set bs" by auto
  have hd2: "head d2 = first_of (as @ bs) None"
  proof (cases as)
    case Nil with hd pn show ?thesis by (simp add: d2_def d1_def)
  next
    case (Cons a as')
    with ta have "a \<noteq> t" by auto
    with Cons hd show ?thesis by (auto simp add: d2_def d1_def)
  qed
  have t1: "tail d1 = tail d" by (simp add: d1_def)
  have tl2: "tail d2 = last_of None (as @ bs)"
  proof (cases "bs = []")
    case True with tl pn t1 show ?thesis by (simp add: d2_def)
  next
    case False
    then have "last bs \<in> set bs" by simp
    with tb have "last bs \<noteq> t" by auto
    with False tl t1 show ?thesis
      by (auto simp add: d2_def last_of_nonempty)
  qed
  from dist have "distinct (as @ bs)" by auto
  with ch hd2 tl2 show "dq_rep h' d2 (removeAll t xs)"
    unfolding xs removeAll_split [OF dist] by (simp add: dq_rep_def)
  show "links_frame h h' (set xs)"
    unfolding xs links_frame_def h'_def nx1_def pv1_def prev_def next_def
    using u(4) by simp
qed

lemma taskqueue_remove_unsafe_rep:
  fixes h :: "'a task_links_scheme"
  assumes r: "tq_rep h tq hs ls" and t: "t \<in> set hs \<union> set ls"
  shows "\<exists>h' tq'. dart_tasking_taskqueue_remove_unsafe h tq t = (h', tq')
           \<and> tq_rep h' tq' (removeAll t hs) (removeAll t ls)
           \<and> links_frame h h' (set hs \<union> set ls)"
proof -
  from r have rh: "dq_rep h (highprio tq) hs" and rl: "dq_rep h (lowprio tq) ls"
    and dj: "set hs \<inter> set ls = {}"
    and ph: "\<forall>x \<in> set hs. t_prio h x = DART_PRIO_HIGH"
    and pl: "\<forall>x \<in> set ls. t_prio h x \<noteq> DART_PRIO_HIGH"
    by (simp_all add: tq_rep_def)
  from rh rl have hts: "head (highprio tq) = first_of hs None" "tail (highprio tq) = last_of None hs"
    "head (lowprio tq) = first_of ls None" "tail (lowprio tq) = last_of None ls"
    by (simp_all add: dq_rep_def)
  define prev where "prev = t_prev h t"
  define "next" where "next = t_next h t"
  define nx1 where "nx1 = (case prev of None \<Rightarrow> t_next h | Some p \<Rightarrow> (t_next h)(p := next))"
  define pv1 where "pv1 = (case next of None \<Rightarrow> t_prev h | Some n \<Rightarrow> (t_prev h)(n := prev))"
  define h' where "h' = h\<lparr> t_next := nx1(t := None), t_prev := pv1(t := None) \<rparr>"
  have hh: "fst (dart_tasking_taskqueue_remove_unsafe h tq t) = h'"
    unfolding dart_tasking_taskqueue_remove_unsafe_def Let_def h'_def nx1_def pv1_def prev_def next_def
    by (simp split: option.splits)
  have p': "t_prio h' = t_prio h" by (simp add: h'_def)
  show ?thesis
  proof (cases "t \<in> set hs")
    case True
    with dj have tl: "t \<notin> set ls" by auto
    then have nl: "Some t \<noteq> head (lowprio tq)" "Some t \<noteq> tail (lowprio tq)"
      using hts by (metis first_of_in, metis last_of_in)
    define d where "d = highprio tq"
    define d1 where "d1 = (if Some t = head d then d\<lparr> head := next \<rparr> else d)"
    define d2 where "d2 = (if Some t = tail d1 then d1\<lparr> tail := prev \<rparr> else d1)"
    have tq: "snd (dart_tasking_taskqueue_remove_unsafe h tq t) = tq\<lparr> highprio := d2 \<rparr>"
      unfolding dart_tasking_taskqueue_remove_unsafe_def Let_def d2_def d1_def d_def prev_def next_def
      using nl by auto
    note u = dq_unlink [OF rh True]
    have rd: "dq_rep h' d2 (removeAll t hs)"
      using u(1) unfolding h'_def nx1_def pv1_def prev_def next_def d2_def d1_def d_def .
    have fr: "links_frame h h' (set hs)"
      using u(2) unfolding h'_def nx1_def pv1_def prev_def next_def .
    from dq_rep_frame [OF rl fr] dj have rl': "dq_rep h' (lowprio tq) ls" by blast
    have "tq_rep h' (tq\<lparr> highprio := d2 \<rparr>) (removeAll t hs) (removeAll t ls)"
      using rd rl' tl dj ph pl p' by (auto simp: tq_rep_def removeAll_id)
    moreover have "links_frame h h' (set hs \<union> set ls)"
      using fr by (rule links_frame_mono) auto
    ultimately show ?thesis using hh tq by (metis prod.collapse)
  next
    case False
    with t have tin: "t \<in> set ls" by auto
    from False have nh: "Some t \<noteq> head (highprio tq)" "Some t \<noteq> tail (highprio tq)"
      using hts by (metis first_of_in, metis last_of_in)
    define d where "d = lowprio tq"
    define d1 where "d1 = (if Some t = head d then d\<lparr> head := next \<rparr> else d)"
    define d2 where "d2 = (if Some t = tail d1 then d1\<lparr> tail := prev \<rparr> else d1)"
    have tq: "snd (dart_tasking_taskqueue_remove_unsafe h tq t) = tq\<lparr> lowprio := d2 \<rparr>"
      unfolding dart_tasking_taskqueue_remove_unsafe_def Let_def d2_def d1_def d_def prev_def next_def
      using nh by auto
    note u = dq_unlink [OF rl tin]
    have rd: "dq_rep h' d2 (removeAll t ls)"
      using u(1) unfolding h'_def nx1_def pv1_def prev_def next_def d2_def d1_def d_def .
    have fr: "links_frame h h' (set ls)"
      using u(2) unfolding h'_def nx1_def pv1_def prev_def next_def .
    from dq_rep_frame [OF rh fr] dj have rh': "dq_rep h' (highprio tq) hs" by blast
    have "tq_rep h' (tq\<lparr> lowprio := d2 \<rparr>) (removeAll t hs) (removeAll t ls)"
      using rd rh' False dj ph pl p' by (auto simp: tq_rep_def removeAll_id)
    moreover have "links_frame h h' (set hs \<union> set ls)"
      using fr by (rule links_frame_mono) auto
    ultimately show ?thesis using hh tq by (metis prod.collapse)
  qed
qed

lemma tq_rep_cong:
  "t_next h' = t_next h \<Longrightarrow> t_prev h' = t_prev h \<Longrightarrow> t_prio h' = t_prio h
   \<Longrightarrow> tq_rep h' tq hs ls = tq_rep h tq hs ls"
  by (simp add: tq_rep_def dq_rep_def)

lemma links_frame_queue:
  fixes s :: "'a tq_state_scheme"
  shows "links_frame s s1 S \<Longrightarrow> task_queue s1 = task_queue s"
  unfolding links_frame_def
  by (metis tq_state.select_convs(1) tq_state.surjective task_links.update_convs(1,2)
      task_links.select_convs(4))

lemma queued_iff: "queued A t \<longleftrightarrow> (\<exists>i < length A. t \<in> content_set A i)"
proof
  assume "queued A t"
  then obtain p where p: "p \<in> set A" "t \<in> set (fst p) \<or> t \<in> set (snd p)"
    by (auto simp: queued_def list_ex_iff)
  from p(1) obtain i where "i < length A" "A ! i = p" by (auto simp: in_set_conv_nth)
  with p(2) show "\<exists>i < length A. t \<in> content_set A i" by (auto simp: content_set_def)
next
  assume "\<exists>i < length A. t \<in> content_set A i"
  then obtain i where i: "i < length A" "t \<in> set (fst (A ! i)) \<or> t \<in> set (snd (A ! i))"
    by (auto simp: content_set_def)
  then have "A ! i \<in> set A" by simp
  with i(2) show "queued A t"
    unfolding queued_def list_ex_iff by (intro bexI [of _ "A ! i"]) (auto simp: case_prod_beta)
qed

lemma st_rep_alt:
  "st_rep s A \<longleftrightarrow>
     (length A = length (task_queue s)
      \<and> (\<forall>i < length A. tq_rep s (task_queue s ! i) (fst (A ! i)) (snd (A ! i)))
      \<and> (\<forall>i < length A. \<forall>j < length A. i \<noteq> j \<longrightarrow> content_set A i \<inter> content_set A j = {}))"
  by (simp add: st_rep_def content_set_def)

lemma st_rep_step:
  fixes s :: "'a tq_state_scheme"
  assumes R: "st_rep s A" and q: "q < length A"
      and n: "tq_rep s1 tq' hs' ls'"
      and fr: "links_frame s s1 S"
      and S: "S \<subseteq> content_set A q \<union> T"
      and new: "set hs' \<union> set ls' \<subseteq> content_set A q \<union> T"
      and T: "\<forall>j < length A. T \<inter> content_set A j = {}"
  shows "st_rep (s1\<lparr> task_queue := (task_queue s1)[q := tq'] \<rparr>) (A[q := (hs', ls')])"
proof -
  let ?s2 = "s1\<lparr> task_queue := (task_queue s1)[q := tq'] \<rparr>"
  let ?A2 = "A[q := (hs', ls')]"
  from R have len: "length A = length (task_queue s)"
    and reps: "\<forall>i < length A. tq_rep s (task_queue s ! i) (fst (A ! i)) (snd (A ! i))"
    and dj: "\<forall>i < length A. \<forall>j < length A. i \<noteq> j \<longrightarrow> content_set A i \<inter> content_set A j = {}"
    by (simp_all add: st_rep_alt)
  have tqs: "task_queue s1 = task_queue s" by (rule links_frame_queue [OF fr])
  have cong: "tq_rep (s1\<lparr> task_queue := X \<rparr>) tq hs ls = tq_rep s1 tq hs ls" for tq hs ls X
    by (rule tq_rep_cong) simp_all
  have cs: "content_set ?A2 i = (if i = q then set hs' \<union> set ls' else content_set A i)"
    if "i < length A" for i
    using that by (simp add: content_set_def nth_list_update)
  show ?thesis
    unfolding st_rep_alt
  proof (intro conjI allI impI)
    show "length ?A2 = length (task_queue ?s2)" using len tqs by simp
  next
    fix i assume i: "i < length ?A2"
    show "tq_rep ?s2 (task_queue ?s2 ! i) (fst (?A2 ! i)) (snd (?A2 ! i))"
    proof (cases "i = q")
      case True
      with i n len tqs show ?thesis by (simp add: cong)
    next
      case False
      from i have i': "i < length A" by simp
      with reps have ri: "tq_rep s (task_queue s ! i) (fst (A ! i)) (snd (A ! i))" by blast
      have "S \<inter> content_set A i = {}"
        using S T dj i' q False by blast
      then have "S \<inter> (set (fst (A ! i)) \<union> set (snd (A ! i))) = {}"
        by (simp add: content_set_def)
      from tq_rep_frame [OF ri fr this] False i' tqs show ?thesis
        by (simp add: cong)
    qed
  next
    fix i j assume "i < length ?A2" "j < length ?A2" "i \<noteq> j"
    then have ij: "i < length A" "j < length A" "i \<noteq> j" by simp_all
    show "content_set ?A2 i \<inter> content_set ?A2 j = {}"
    proof (cases "i = q")
      case True
      with ij have jq: "j \<noteq> q" by simp
      have "content_set A q \<inter> content_set A j = {}" using dj ij q jq by blast
      moreover have "T \<inter> content_set A j = {}" using T ij by blast
      ultimately show ?thesis using new True jq ij by (simp add: cs) blast
    next
      case False
      show ?thesis
      proof (cases "j = q")
        case True
        have "content_set A q \<inter> content_set A i = {}" using dj ij q False by blast
        moreover have "T \<inter> content_set A i = {}" using T ij by blast
        ultimately show ?thesis using new True False ij by (simp add: cs) blast
      next
        case jq: False
        with False dj ij show ?thesis by (simp add: cs)
      qed
    qed
  qed
qed

lemma links_frame_prio_state:
  fixes s :: "'a tq_state_scheme"
  shows "links_frame s s1 S \<Longrightarrow> t_prio (s1\<lparr> task_queue := X \<rparr>) = t_prio s"
  using links_frame_prio [of s s1 S] by simp

lemma st_add:
  fixes s :: "'a tq_state_scheme"
  assumes f: "\<And>(h :: 'a tq_state_scheme) tq hs ls. tq_rep h tq hs ls \<Longrightarrow> t \<notin> set hs \<union> set ls \<Longrightarrow>
               \<exists>h' tq'. f h tq = Some (h', tq')
                 \<and> tq_rep h' tq' (if t_prio h t = DART_PRIO_HIGH then g hs else hs)
                                  (if t_prio h t = DART_PRIO_HIGH then ls else g ls)
                 \<and> links_frame h h' (insert t (set hs \<union> set ls))"
      and g: "\<And>xs. set (g xs) = insert t (set xs)"
      and R: "st_rep s A" and q: "q < length A" and nq: "\<not> queued A t"
  shows "\<exists>s'. map_option snd (with_queue q (\<lambda>h tq. map_option (Pair ()) (f h tq)) s) = Some s'
           \<and> st_rep s' (add_with (t_prio s) g q t A) \<and> t_prio s' = t_prio s"
proof -
  define hs where "hs = fst (A ! q)"
  define ls where "ls = snd (A ! q)"
  from R q have len: "q < length (task_queue s)"
    and r: "tq_rep s (task_queue s ! q) hs ls"
    by (simp_all add: st_rep_def hs_def ls_def)
  from nq have T: "\<forall>j < length A. {t} \<inter> content_set A j = {}"
    by (auto simp: queued_iff)
  with q have t: "t \<notin> set hs \<union> set ls" by (auto simp: content_set_def hs_def ls_def)
  define hs' where "hs' = (if t_prio s t = DART_PRIO_HIGH then g hs else hs)"
  define ls' where "ls' = (if t_prio s t = DART_PRIO_HIGH then ls else g ls)"
  from f [OF r t] obtain s1 tq' where o: "f s (task_queue s ! q) = Some (s1, tq')"
    and n: "tq_rep s1 tq' hs' ls'"
    and fr: "links_frame s s1 (insert t (set hs \<union> set ls))"
    unfolding hs'_def ls'_def by blast
  have S: "insert t (set hs \<union> set ls) \<subseteq> content_set A q \<union> {t}"
    by (auto simp: content_set_def hs_def ls_def)
  have new: "set hs' \<union> set ls' \<subseteq> content_set A q \<union> {t}"
    by (auto simp: content_set_def hs_def ls_def hs'_def ls'_def g)
  from st_rep_step [OF R q n fr S new T]
  have "st_rep (s1\<lparr> task_queue := (task_queue s1)[q := tq'] \<rparr>) (A[q := (hs', ls')])" .
  moreover have "A[q := (hs', ls')] = add_with (t_prio s) g q t A"
    by (simp add: add_with_def hs'_def ls'_def hs_def ls_def)
  moreover have "map_option snd (with_queue q (\<lambda>h tq. map_option (Pair ()) (f h tq)) s)
                 = Some (s1\<lparr> task_queue := (task_queue s1)[q := tq'] \<rparr>)"
    using len o by (simp add: with_queue_def)
  ultimately show ?thesis using links_frame_prio_state [OF fr] by simp
qed

lemma st_take:
  fixes s :: "'a tq_state_scheme"
  assumes f: "\<And>(h :: 'a tq_state_scheme) tq hs ls. tq_rep h tq hs ls \<Longrightarrow>
               \<exists>h' tq'. f h tq = Some (if hs = [] then sel ls else sel hs, h', tq')
                 \<and> tq_rep h' tq' (g hs) (if hs = [] then g ls else ls)
                 \<and> links_frame h h' (set hs \<union> set ls)"
      and g: "\<And>xs. set (g xs) \<subseteq> set xs"
      and R: "st_rep s A" and q: "q < length A"
  shows "\<exists>s'. with_queue q f s
               = Some (if fst (A ! q) = [] then sel (snd (A ! q)) else sel (fst (A ! q)), s')
           \<and> st_rep s' (take_with g q A) \<and> t_prio s' = t_prio s"
proof -
  define hs where "hs = fst (A ! q)"
  define ls where "ls = snd (A ! q)"
  from R q have len: "q < length (task_queue s)"
    and r: "tq_rep s (task_queue s ! q) hs ls"
    by (simp_all add: st_rep_def hs_def ls_def)
  define ls' where "ls' = (if hs = [] then g ls else ls)"
  from f [OF r] obtain s1 tq' where
    o: "f s (task_queue s ! q) = Some (if hs = [] then sel ls else sel hs, s1, tq')"
    and n: "tq_rep s1 tq' (g hs) ls'"
    and fr: "links_frame s s1 (set hs \<union> set ls)"
    unfolding ls'_def by blast
  have S: "set hs \<union> set ls \<subseteq> content_set A q \<union> {}"
    by (auto simp: content_set_def hs_def ls_def)
  have new: "set (g hs) \<union> set ls' \<subseteq> content_set A q \<union> {}"
    using g [of hs] g [of ls] by (auto simp: content_set_def hs_def ls_def ls'_def)
  have T: "\<forall>j < length A. {} \<inter> content_set A j = {}" by simp
  from st_rep_step [OF R q n fr S new T]
  have "st_rep (s1\<lparr> task_queue := (task_queue s1)[q := tq'] \<rparr>) (A[q := (g hs, ls')])" .
  moreover have "A[q := (g hs, ls')] = take_with g q A"
    by (simp add: take_with_def ls'_def hs_def ls_def)
  moreover have "with_queue q f s
      = Some (if hs = [] then sel ls else sel hs, s1\<lparr> task_queue := (task_queue s1)[q := tq'] \<rparr>)"
    using len o by (simp add: with_queue_def)
  ultimately show ?thesis using links_frame_prio_state [OF fr] by (simp add: hs_def ls_def)
qed

lemma st_remove:
  fixes s :: "'a tq_state_scheme"
  assumes R: "st_rep s A" and q: "q < length A" and t: "t \<in> content_set A q"
  shows "\<exists>s'. dart_tasking_taskqueue_remove q (Some t) s = Some s'
           \<and> st_rep s' (A[q := (removeAll t (fst (A ! q)), removeAll t (snd (A ! q)))])
           \<and> t_prio s' = t_prio s"
proof -
  define hs where "hs = fst (A ! q)"
  define ls where "ls = snd (A ! q)"
  from R q have len: "q < length (task_queue s)"
    and r: "tq_rep s (task_queue s ! q) hs ls"
    by (simp_all add: st_rep_def hs_def ls_def)
  from t have t': "t \<in> set hs \<union> set ls" by (simp add: content_set_def hs_def ls_def)
  from taskqueue_remove_unsafe_rep [OF r t'] obtain s1 tq' where
    o: "dart_tasking_taskqueue_remove_unsafe s (task_queue s ! q) t = (s1, tq')"
    and n: "tq_rep s1 tq' (removeAll t hs) (removeAll t ls)"
    and fr: "links_frame s s1 (set hs \<union> set ls)" by blast
  have S: "set hs \<union> set ls \<subseteq> content_set A q \<union> {}"
    by (auto simp: content_set_def hs_def ls_def)
  have new: "set (removeAll t hs) \<union> set (removeAll t ls) \<subseteq> content_set A q \<union> {}"
    by (auto simp: content_set_def hs_def ls_def)
  have T: "\<forall>j < length A. {} \<inter> content_set A j = {}" by simp
  from st_rep_step [OF R q n fr S new T]
  have "st_rep (s1\<lparr> task_queue := (task_queue s1)[q := tq'] \<rparr>)
               (A[q := (removeAll t hs, removeAll t ls)])" .
  moreover have "dart_tasking_taskqueue_remove q (Some t) s
      = Some (s1\<lparr> task_queue := (task_queue s1)[q := tq'] \<rparr>)"
    using len o by (simp add: dart_tasking_taskqueue_remove_def with_queue_def)
  ultimately show ?thesis using links_frame_prio_state [OF fr] by (simp add: hs_def ls_def)
qed

lemma st_move:
  fixes s :: "'a tq_state_scheme"
  assumes R: "st_rep s A" and d: "dst < length A" and sr: "src < length A" and ne: "dst \<noteq> src"
  shows "\<exists>s'. dart_tasking_taskqueue_move dst src s = Some s'
           \<and> st_rep s' (A[dst := (fst (A ! src) @ fst (A ! dst), snd (A ! src) @ snd (A ! dst)),
                           src := ([], [])])
           \<and> t_prio s' = t_prio s"
proof -
  from R have len: "length A = length (task_queue s)"
    and reps: "\<forall>i < length A. tq_rep s (task_queue s ! i) (fst (A ! i)) (snd (A ! i))"
    and dj: "\<forall>i < length A. \<forall>j < length A. i \<noteq> j \<longrightarrow> content_set A i \<inter> content_set A j = {}"
    by (simp_all add: st_rep_alt)
  define dh where "dh = fst (A ! dst)"
  define dl where "dl = snd (A ! dst)"
  define sh where "sh = fst (A ! src)"
  define sl where "sl = snd (A ! src)"
  from reps d sr have rd: "tq_rep s (task_queue s ! dst) dh dl"
    and rs: "tq_rep s (task_queue s ! src) sh sl"
    by (simp_all add: dh_def dl_def sh_def sl_def)
  from dj d sr ne have "content_set A dst \<inter> content_set A src = {}" by blast
  then have dj2: "(set dh \<union> set dl) \<inter> (set sh \<union> set sl) = {}"
    by (simp add: content_set_def dh_def dl_def sh_def sl_def)
  from taskqueue_move_unsafe_rep [OF rd rs dj2] obtain s1 d' sr' where
    o: "dart_tasking_taskqueue_move_unsafe s (task_queue s ! dst) (task_queue s ! src) = (s1, d', sr')"
    and nd: "tq_rep s1 d' (sh @ dh) (sl @ dl)" and ns: "tq_rep s1 sr' [] []"
    and fr: "links_frame s s1 (set dh \<union> set dl \<union> set sh \<union> set sl)" by blast
  let ?s2 = "s1\<lparr> task_queue := (task_queue s1)[dst := d', src := sr'] \<rparr>"
  let ?A2 = "A[dst := (sh @ dh, sl @ dl), src := ([], [])]"
  have tqs: "task_queue s1 = task_queue s" by (rule links_frame_queue [OF fr])
  have cong: "tq_rep (s1\<lparr> task_queue := X \<rparr>) tq hs ls = tq_rep s1 tq hs ls" for tq hs ls X
    by (rule tq_rep_cong) simp_all
  have cs: "content_set ?A2 i = (if i = src then {} else if i = dst
              then content_set A dst \<union> content_set A src else content_set A i)"
    if "i < length A" for i
    using that by (auto simp add: content_set_def nth_list_update dh_def dl_def sh_def sl_def)
  have frS: "set dh \<union> set dl \<union> set sh \<union> set sl = content_set A dst \<union> content_set A src"
    by (auto simp: content_set_def dh_def dl_def sh_def sl_def)
  have "st_rep ?s2 ?A2"
    unfolding st_rep_alt
  proof (intro conjI allI impI)
    show "length ?A2 = length (task_queue ?s2)" using len tqs by simp
  next
    fix i assume i: "i < length ?A2"
    then have i': "i < length A" by simp
    consider "i = src" | "i = dst" "i \<noteq> src" | "i \<noteq> dst" "i \<noteq> src" by blast
    then show "tq_rep ?s2 (task_queue ?s2 ! i) (fst (?A2 ! i)) (snd (?A2 ! i))"
    proof cases
      case 1 with i' ns len tqs show ?thesis by (simp add: cong)
    next
      case 2 with i' nd len tqs show ?thesis by (simp add: cong)
    next
      case 3
      from reps i' have ri: "tq_rep s (task_queue s ! i) (fst (A ! i)) (snd (A ! i))" by blast
      have "(content_set A dst \<union> content_set A src) \<inter> content_set A i = {}"
        using dj i' d sr 3 by blast
      then have "(set dh \<union> set dl \<union> set sh \<union> set sl)
                   \<inter> (set (fst (A ! i)) \<union> set (snd (A ! i))) = {}"
        unfolding frS by (simp add: content_set_def)
      from tq_rep_frame [OF ri fr this] 3 i' tqs show ?thesis by (simp add: cong)
    qed
  next
    fix i j assume "i < length ?A2" "j < length ?A2" "i \<noteq> j"
    then have ij: "i < length A" "j < length A" "i \<noteq> j" by simp_all
    have a: "content_set A i \<inter> content_set A j = {}" using dj ij by blast
    have b: "k \<noteq> dst \<Longrightarrow> k < length A \<Longrightarrow> content_set A dst \<inter> content_set A k = {}" for k
      using dj d by blast
    have c: "k \<noteq> src \<Longrightarrow> k < length A \<Longrightarrow> content_set A src \<inter> content_set A k = {}" for k
      using dj sr by blast
    show "content_set ?A2 i \<inter> content_set ?A2 j = {}"
      using a b [of i] b [of j] c [of i] c [of j] ij
      by (simp add: cs) blast
  qed
  moreover have "dart_tasking_taskqueue_move dst src s = Some ?s2"
    using d sr ne len o by (simp add: dart_tasking_taskqueue_move_def)
  ultimately show ?thesis using links_frame_prio_state [OF fr]
    by (simp add: dh_def dl_def sh_def sl_def)
qed

lemma tq_apply_rep:
  fixes s :: "'a tq_state_scheme"
  assumes R: "st_rep s A" and al: "op_allowed op A"
  shows "\<exists>s'. tq_apply op s = Some s' \<and> st_rep s' (contents_after (t_prio s) op A)
           \<and> t_prio s' = t_prio s"
proof (cases op)
  case (Op_push q t)
  with al have q: "q < length A" and nq: "\<not> queued A t" by simp_all
  have g: "\<And>xs. set (t # xs) = insert t (set xs)" by simp
  from st_add [where f = "\<lambda>h tq. dart_tasking_taskqueue_push_unsafe h tq t" and g = "(#) t",
               OF taskqueue_push_unsafe_rep g R q nq]
  show ?thesis using Op_push by (simp add: dart_tasking_taskqueue_push_def)
next
  case (Op_pushback q t)
  with al have q: "q < length A" and nq: "\<not> queued A t" by simp_all
  have g: "\<And>xs. set (xs @ [t]) = insert t (set xs)" by simp
  from st_add [where f = "\<lambda>h tq. dart_tasking_taskqueue_pushback_unsafe h tq t"
                 and g = "\<lambda>xs. xs @ [t]",
               OF taskqueue_pushback_unsafe_rep g R q nq]
  show ?thesis using Op_pushback by (simp add: dart_tasking_taskqueue_pushback_def)
next
  case (Op_insert q t pos)
  with al have q: "q < length A" and nq: "\<not> queued A t" by simp_all
  from st_add [where f = "\<lambda>h tq. dart_tasking_taskqueue_insert_unsafe h tq t pos"
                 and g = "insert_at pos t",
               OF taskqueue_insert_unsafe_rep set_insert_at R q nq]
  show ?thesis using Op_insert by (simp add: dart_tasking_taskqueue_insert_def)
next
  case (Op_pop q)
  with al have q: "q < length A" by simp
  have g: "\<And>xs::nat list. set (tl xs) \<subseteq> set xs"
  proof - fix xs :: "nat list" show "set (tl xs) \<subseteq> set xs" by (cases xs) auto qed
  from st_take [where f = dart_tasking_taskqueue_pop_unsafe and g = tl
                  and sel = "\<lambda>xs. first_of xs None",
               OF taskqueue_pop_unsafe_rep g R q]
  show ?thesis using Op_pop by (auto simp add: dart_tasking_taskqueue_pop_def)
next
  case (Op_popback q)
  with al have q: "q < length A" by simp
  have g: "\<And>xs::nat list. set (butlast xs) \<subseteq> set xs"
  proof - fix xs :: "nat list" show "set (butlast xs) \<subseteq> set xs" by (auto dest: in_set_butlastD) qed
  from st_take [where f = dart_tasking_taskqueue_popback_unsafe and g = butlast
                  and sel = "last_of None",
               OF taskqueue_popback_unsafe_rep g R q]
  show ?thesis using Op_popback by (auto simp add: dart_tasking_taskqueue_popback_def)
next
  case (Op_remove q t)
  with al have q: "q < length A" and t: "t \<in> content_set A q"
    by (auto simp: content_set_def)
  from st_remove [OF R q t] show ?thesis using Op_remove by simp
next
  case (Op_move dst src)
  with al have "dst < length A" "src < length A" "dst \<noteq> src" by simp_all
  from st_move [OF R this] show ?thesis using Op_move by simp
qed

lemma tq_run_rep:
  fixes s :: "'a tq_state_scheme"
  shows "st_rep s A \<Longrightarrow> run_allowed (t_prio s) ops A
         \<Longrightarrow> \<exists>s' A'. tq_run ops s = Some s' \<and> st_rep s' A' \<and> t_prio s' = t_prio s"
proof (induction ops arbitrary: s A)
  case Nil
  then show ?case by auto
next
  case (Cons op ops)
  from Cons.prems have al: "op_allowed op A"
    and rest: "run_allowed (t_prio s) ops (contents_after (t_prio s) op A)" by simp_all
  from tq_apply_rep [OF Cons.prems(1) al] obtain s1 where
    a: "tq_apply op s = Some s1" and r1: "st_rep s1 (contents_after (t_prio s) op A)"
    and p1: "t_prio s1 = t_prio s" by blast
  from rest p1 have "run_allowed (t_prio s1) ops (contents_after (t_prio s) op A)" by simp
  from Cons.IH [OF r1 this] obtain s' A' where
    "tq_run ops s1 = Some s'" "st_rep s' A'" "t_prio s' = t_prio s1" by blast
  with a p1 show ?case by auto
qed

lemma run_allowed_take: "run_allowed prio ops A \<Longrightarrow> run_allowed prio (take k ops) A"
proof (induction ops arbitrary: A k)
  case Nil then show ?case by simp
next
  case (Cons op ops) then show ?case by (cases k) simp_all
qed

lemma st_rep_queues_inv: "st_rep s A \<Longrightarrow> queues_inv s"
proof -
  assume R: "st_rep s A"
  have "deque_inv (highprio tq) \<and> deque_inv (lowprio tq)" if "tq \<in> set (task_queue s)" for tq
  proof -
    from that obtain i where i: "i < length (task_queue s)" "task_queue s ! i = tq"
      by (auto simp: in_set_conv_nth)
    with R have "tq_rep s tq (fst (A ! i)) (snd (A ! i))" by (auto simp: st_rep_def)
    then have "dq_rep s (highprio tq) (fst (A ! i))" "dq_rep s (lowprio tq) (snd (A ! i))"
      by (simp_all add: tq_rep_def)
    from dq_rep_empty_iff [OF this(1)] dq_rep_empty_iff [OF this(2)]
    show ?thesis by (simp add: deque_inv_def)
  qed
  then show ?thesis by (simp add: queues_inv_def list_all_iff)
qed

lemma st_rep_initial:
  "task_queue s = replicate n dart_tasking_taskqueue_init \<Longrightarrow> st_rep s (replicate n ([], []))"
  by (simp add: st_rep_def tq_rep_def dq_rep_def dart_tasking_taskqueue_init_def)

text \<open>
  C3 (amended).  Start from queues that are all empty and run any sequence of push,
  pushback, insert, pop, popback, remove and move operations that keeps to the contract
  of the queue (a task is added only while it is in no deque, remove is given a task of
  the queue it is called on, move is given two different queues).  Then no operation
  fails, and after each operation every deque, high- or low-priority, satisfies
  \<open>head = NULL\<close> if and only if \<open>tail = NULL\<close>.
\<close>

theorem taskqueue_invariant_after_each_operation:
  fixes s :: "'a tq_state_scheme"
  assumes init: "task_queue s = replicate n dart_tasking_taskqueue_init"
      and ok: "run_allowed (t_prio s) ops (replicate n ([], []))"
  shows "\<forall>k \<le> length ops. \<exists>s'. tq_run (take k ops) s = Some s' \<and> queues_inv s'"
proof (intro allI impI)
  fix k
  from run_allowed_take [OF ok] have "run_allowed (t_prio s) (take k ops) (replicate n ([], []))" .
  from tq_run_rep [OF st_rep_initial [OF init] this]
  show "\<exists>s'. tq_run (take k ops) s = Some s' \<and> queues_inv s'"
    by (blast intro: st_rep_queues_inv)
qed

text \<open>
  C3 (as stated, refuted).  The claim speaks of every sequence of operations.  Pushing
  task 1, pushing task 2, pushing task 1 a second time (it is not the head then, so the
  assertion of push does not fire) and removing task 1 leaves the low-priority deque
  with \<open>head = 2\<close> and \<open>tail = NULL\<close>.
\<close>

theorem taskqueue_invariant_broken_by_double_push:
  "map_option (\<lambda>s. (map (\<lambda>tq. (head (lowprio tq), tail (lowprio tq))) (task_queue s), queues_inv s))
     (tq_run [Op_push 0 1, Op_push 0 2, Op_push 0 1, Op_remove 0 1] example_queues)
   = Some ([(Some 2, None), (None, None)], False)"
  by (simp add: example_queues_def dart_tasking_taskqueue_init_def
      dart_tasking_taskqueue_push_def dart_tasking_taskqueue_remove_def with_queue_def
      dart_tasking_taskqueue_push_unsafe_def dart_tasking_taskqueue_remove_unsafe_def
      task_deque_push_def queues_inv_def deque_inv_def Let_def)

theorem taskqueue_invariant_after_each_operation_witness:
  "run_allowed (t_prio example_queues)
     [Op_push 0 1, Op_pushback 0 2, Op_insert 0 3 1, Op_push 0 5, Op_move 1 0, Op_pop 1,
      Op_remove 1 2, Op_popback 1] (replicate 2 ([], []))
   \<and> (\<exists>s'. tq_run [Op_push 0 1, Op_pushback 0 2, Op_insert 0 3 1, Op_push 0 5, Op_move 1 0,
                    Op_pop 1, Op_remove 1 2, Op_popback 1] example_queues = Some s'
           \<and> queues_inv s')"
proof -
  let ?ops = "[Op_push 0 1, Op_pushback 0 2, Op_insert 0 3 1, Op_push 0 5, Op_move 1 0, Op_pop 1,
      Op_remove 1 2, Op_popback 1]"
  have init: "task_queue example_queues = replicate 2 dart_tasking_taskqueue_init"
    by (simp add: example_queues_def numeral_2_eq_2)
  have ok: "run_allowed (t_prio example_queues) ?ops (replicate 2 ([], []))"
    by code_simp
  from taskqueue_invariant_after_each_operation [OF init ok]
  have "\<exists>s'. tq_run (take (length ?ops) ?ops) example_queues = Some s' \<and> queues_inv s'"
    by blast
  with ok show ?thesis by simp
qed

text \<open>
  C4.  In a well-formed queue that contains at least one task of priority
  \<open>DART_PRIO_HIGH\<close>, pop returns the head and popback the tail of the high-priority
  deque, a task of high priority.  If pop or popback returns a task that is not of high
  priority, the high-priority deque is empty and the queue holds no high-priority task.
\<close>

theorem pop_prefers_high_priority:
  fixes s :: "'a tq_state_scheme"
  assumes R: "st_rep s A" and q: "q < length A"
  shows "((\<exists>t \<in> content_set A q. t_prio s t = DART_PRIO_HIGH) \<longrightarrow>
            (\<exists>t s'. dart_tasking_taskqueue_pop q s = Some (Some t, s')
                     \<and> Some t = head (highprio (task_queue s ! q))
                     \<and> t_prio s t = DART_PRIO_HIGH)
          \<and> (\<exists>t s'. dart_tasking_taskqueue_popback q s = Some (Some t, s')
                     \<and> Some t = tail (highprio (task_queue s ! q))
                     \<and> t_prio s t = DART_PRIO_HIGH))
       \<and> (\<forall>t s'. dart_tasking_taskqueue_pop q s = Some (Some t, s')
                    \<and> t_prio s t \<noteq> DART_PRIO_HIGH
                  \<longrightarrow> head (highprio (task_queue s ! q)) = None
                      \<and> (\<forall>x \<in> content_set A q. t_prio s x \<noteq> DART_PRIO_HIGH))
       \<and> (\<forall>t s'. dart_tasking_taskqueue_popback q s = Some (Some t, s')
                    \<and> t_prio s t \<noteq> DART_PRIO_HIGH
                  \<longrightarrow> tail (highprio (task_queue s ! q)) = None
                      \<and> (\<forall>x \<in> content_set A q. t_prio s x \<noteq> DART_PRIO_HIGH))"
proof -
  define hs where "hs = fst (A ! q)"
  define ls where "ls = snd (A ! q)"
  define tq where "tq = task_queue s ! q"
  from R q have len: "q < length (task_queue s)" and r: "tq_rep s tq hs ls"
    by (simp_all add: st_rep_def hs_def ls_def tq_def)
  from r have rh: "dq_rep s (highprio tq) hs"
    and ph: "\<forall>x \<in> set hs. t_prio s x = DART_PRIO_HIGH"
    and pl: "\<forall>x \<in> set ls. t_prio s x \<noteq> DART_PRIO_HIGH"
    by (simp_all add: tq_rep_def)
  from rh have hd: "head (highprio tq) = first_of hs None" and tl: "tail (highprio tq) = last_of None hs"
    by (simp_all add: dq_rep_def)
  have cs: "content_set A q = set hs \<union> set ls" by (simp add: content_set_def hs_def ls_def)
  have high_iff: "(\<exists>t \<in> content_set A q. t_prio s t = DART_PRIO_HIGH) \<longleftrightarrow> hs \<noteq> []"
    using ph pl unfolding cs by (cases hs) auto
  from taskqueue_pop_unsafe_rep [OF r] len obtain s1 where
    pop: "dart_tasking_taskqueue_pop q s
          = Some (if hs = [] then first_of ls None else first_of hs None, s1)"
    by (auto simp: dart_tasking_taskqueue_pop_def with_queue_def tq_def)
  from taskqueue_popback_unsafe_rep [OF r] len obtain s2 where
    popback: "dart_tasking_taskqueue_popback q s
          = Some (if hs = [] then last_of None ls else last_of None hs, s2)"
    by (auto simp: dart_tasking_taskqueue_popback_def with_queue_def tq_def)
  have A: "hs \<noteq> [] \<Longrightarrow> \<exists>t s'. dart_tasking_taskqueue_pop q s = Some (Some t, s')
                     \<and> Some t = head (highprio tq) \<and> t_prio s t = DART_PRIO_HIGH"
    using pop hd ph by (cases hs) auto
  have B: "hs \<noteq> [] \<Longrightarrow> \<exists>t s'. dart_tasking_taskqueue_popback q s = Some (Some t, s')
                     \<and> Some t = tail (highprio tq) \<and> t_prio s t = DART_PRIO_HIGH"
    using popback tl ph by (auto simp: last_of_nonempty)
  have C: "dart_tasking_taskqueue_pop q s = Some (Some t, s') \<Longrightarrow> t_prio s t \<noteq> DART_PRIO_HIGH
           \<Longrightarrow> hs = []" for t s'
    using pop ph by (cases hs) auto
  have D: "dart_tasking_taskqueue_popback q s = Some (Some t, s') \<Longrightarrow> t_prio s t \<noteq> DART_PRIO_HIGH
           \<Longrightarrow> hs = []" for t s'
    using popback ph by (cases "hs = []") (auto simp: last_of_nonempty)
  have E: "hs = [] \<Longrightarrow> head (highprio tq) = None \<and> tail (highprio tq) = None
             \<and> (\<forall>x \<in> content_set A q. t_prio s x \<noteq> DART_PRIO_HIGH)"
    using hd tl pl by (simp add: cs)
  show ?thesis
    unfolding high_iff tq_def [symmetric]
    using A B C D E by blast
qed

lemma example_filled_rep: "st_rep example_filled [([5], [1, 2])]"
  by (simp add: st_rep_def tq_rep_def dq_rep_def example_filled_def)

theorem pop_prefers_high_priority_witness:
  "(\<exists>s'. dart_tasking_taskqueue_pop 0 example_filled = Some (Some 5, s'))
   \<and> (\<exists>s'. dart_tasking_taskqueue_popback 0 example_filled = Some (Some 5, s'))
   \<and> t_prio example_filled 5 = DART_PRIO_HIGH"
proof -
  have q: "0 < length [([5::nat], [1, 2::nat])]" by simp
  have h: "\<exists>t \<in> content_set [([5], [1, 2])] 0. t_prio example_filled t = DART_PRIO_HIGH"
    by (simp add: content_set_def example_filled_def)
  have hd: "head (highprio (task_queue example_filled ! 0)) = Some 5"
    "tail (highprio (task_queue example_filled ! 0)) = Some 5"
    by (simp_all add: example_filled_def)
  have p: "t_prio example_filled 5 = DART_PRIO_HIGH" by (simp add: example_filled_def)
  from pop_prefers_high_priority [OF example_filled_rep q] h
  have "(\<exists>t s'. dart_tasking_taskqueue_pop 0 example_filled = Some (Some t, s')
                     \<and> Some t = head (highprio (task_queue example_filled ! 0))
                     \<and> t_prio example_filled t = DART_PRIO_HIGH)"
    and "(\<exists>t s'. dart_tasking_taskqueue_popback 0 example_filled = Some (Some t, s')
                     \<and> Some t = tail (highprio (task_queue example_filled ! 0))
                     \<and> t_prio example_filled t = DART_PRIO_HIGH)"
    by blast+
  then show ?thesis unfolding hd using p by blast
qed


section \<open>Yielding\<close>

text \<open>
  C10.  A call of \<open>dart__tasking__yield\<close> made while the worker threads are not running
  returns \<open>DART_OK\<close> at once: the state after the call is the state before it, so the
  caller is not suspended and no queue is touched, and this holds for every progress
  function, so no remote progress is made.
\<close>

theorem yield_before_threads_started:
  "\<not> threads_running s
   \<Longrightarrow> dart__tasking__yield progress now self delay s = Some (Yield_returned DART_OK, s)"
  by (simp add: dart__tasking__yield_def)

theorem yield_before_threads_started_witness:
  "\<not> threads_running (example_tasking\<lparr> threads_running := False \<rparr>)
   \<and> dart__tasking__yield id 0 0 1 (example_tasking\<lparr> threads_running := False \<rparr>)
       = Some (Yield_returned DART_OK, example_tasking\<lparr> threads_running := False \<rparr>)"
  using yield_before_threads_started [of "example_tasking\<lparr> threads_running := False \<rparr>" id 0 0 1]
  by simp

text \<open>
  C2 as stated fails while a cancellation is requested: \<open>dart__tasking__yield\<close> tests the
  cancellation flag before it looks at the flags of the task.  In the example state with
  the \<open>INLINE\<close> flag set and a cancellation requested, task 9 calls \<open>yield(1)\<close>; the call
  goes to \<open>dart__tasking__abort_current_task\<close> and does not return \<open>DART_ERR_INVAL\<close>.
\<close>

theorem yield_from_inline_task_aborted:
  "get_thread (example_tasking\<lparr> t_flags := (\<lambda>t. {DART_TASK_INLINE}), cancellation_requested := True \<rparr>) 0
     = Some example_thread
   \<and> th_current_task example_thread = Some 9
   \<and> DART_TASK_INLINE \<in> t_flags (example_tasking\<lparr> t_flags := (\<lambda>t. {DART_TASK_INLINE}),
                                       cancellation_requested := True \<rparr>) 9
   \<and> dart__tasking__yield id 0 0 1
        (example_tasking\<lparr> t_flags := (\<lambda>t. {DART_TASK_INLINE}), cancellation_requested := True \<rparr>)
       = Some (Yield_aborted,
               example_tasking\<lparr> t_flags := (\<lambda>t. {DART_TASK_INLINE}), cancellation_requested := True \<rparr>)"
  by (simp add: dart__tasking__yield_def get_thread_def example_tasking_def example_thread_def)

text \<open>
  C2 (amended).  While the worker threads are running and no cancellation is requested,
  a call of \<open>dart__tasking__yield\<close> from a task that carries the \<open>INLINE\<close> flag returns
  \<open>DART_ERR_INVAL\<close> and leaves the whole state as it was: the task is not suspended, no
  queue or thread is touched, no state changes.
\<close>

theorem yield_from_inline_task:
  assumes "threads_running s" and "\<not> cancellation_requested s"
      and "get_thread s self = Some thread" and "th_current_task thread = Some task"
      and "DART_TASK_INLINE \<in> t_flags s task"
  shows "dart__tasking__yield progress now self delay s = Some (Yield_returned DART_ERR_INVAL, s)"
  using assms by (simp add: dart__tasking__yield_def)

theorem yield_from_inline_task_witness:
  "threads_running (example_tasking\<lparr> t_flags := (\<lambda>t. {DART_TASK_INLINE}) \<rparr>)
   \<and> \<not> cancellation_requested (example_tasking\<lparr> t_flags := (\<lambda>t. {DART_TASK_INLINE}) \<rparr>)
   \<and> get_thread (example_tasking\<lparr> t_flags := (\<lambda>t. {DART_TASK_INLINE}) \<rparr>) 0 = Some example_thread
   \<and> th_current_task example_thread = Some 9
   \<and> DART_TASK_INLINE \<in> t_flags (example_tasking\<lparr> t_flags := (\<lambda>t. {DART_TASK_INLINE}) \<rparr>) 9
   \<and> dart__tasking__yield id 0 0 1 (example_tasking\<lparr> t_flags := (\<lambda>t. {DART_TASK_INLINE}) \<rparr>)
       = Some (Yield_returned DART_ERR_INVAL, example_tasking\<lparr> t_flags := (\<lambda>t. {DART_TASK_INLINE}) \<rparr>)"
proof -
  let ?s = "example_tasking\<lparr> t_flags := (\<lambda>t. {DART_TASK_INLINE}) \<rparr>"
  have a: "threads_running ?s" "\<not> cancellation_requested ?s"
    "get_thread ?s 0 = Some example_thread" "th_current_task example_thread = Some 9"
    "DART_TASK_INLINE \<in> t_flags ?s 9"
    by (simp_all add: get_thread_def example_tasking_def example_thread_def)
  from yield_from_inline_task [OF a, of id 0 1] a show ?thesis by simp
qed

section \<open>Requeueing a task that has yielded\<close>

lemma yield_swapped_out_delay:
  assumes Y: "dart__tasking__yield progress now self delay s = Some (Yield_swapped_out, s1)"
      and T: "get_thread s1 self = Some th1" and C: "th_current_task th1 = Some task"
      and S: "t_state s1 task = DART_TASK_SUSPENDED"
  shows "th_delay th1 = delay"
  using Y T C S
  by (auto simp: dart__tasking__yield_def Let_def get_thread_def set_thread_def
           split: if_splits option.splits prod.splits)

lemma requeue_task_rep:
  fixes s :: "'a tasking_scheme"
  assumes R: "st_rep s A" and T: "get_thread s self = Some th"
      and q: "th_numa_id th < length A" and nq: "\<not> queued A t"
  shows "\<exists>s'. requeue_task self t s = Some s'
           \<and> st_rep s' (add_with (t_prio s)
                          (if th_delay th = 0 then (#) t
                           else if th_delay th > 0 then insert_at (nat (th_delay th)) t
                           else (\<lambda>xs. xs @ [t])) (th_numa_id th) t A)"
proof -
  consider (zero) "th_delay th = 0" | (pos) "th_delay th > 0" | (neg) "th_delay th < 0"
    by linarith
  then show ?thesis
  proof cases
    case zero
    have al: "op_allowed (Op_push (th_numa_id th) t) A" using q nq by simp
    from tq_apply_rep [OF R al] show ?thesis using zero T
      by (auto simp: requeue_task_def)
  next
    case pos
    have al: "op_allowed (Op_insert (th_numa_id th) t (nat (th_delay th))) A" using q nq by simp
    from tq_apply_rep [OF R al] show ?thesis using pos T
      by (auto simp: requeue_task_def)
  next
    case neg
    have al: "op_allowed (Op_pushback (th_numa_id th) t) A" using q nq by simp
    from tq_apply_rep [OF R al] show ?thesis using neg T
      by (auto simp: requeue_task_def)
  qed
qed

lemma add_with_cong:
  "g (prio_deque prio t (A ! q)) = g' (prio_deque prio t (A ! q))
   \<Longrightarrow> add_with prio g q t A = add_with prio g' q t A"
  by (cases "prio t = DART_PRIO_HIGH") (simp_all add: add_with_def prio_deque_def)

text \<open>
  Where the worker requeues a task that \<open>yield(delay)\<close> has suspended and swapped out, if
  the queues are well formed and the task is in none of them: in the deque of its
  priority, which held \<open>n\<close> tasks, of the queue of the worker's NUMA node, at index \<open>0\<close> for
  \<open>delay = 0\<close>, at index \<open>n\<close> for \<open>delay < 0\<close>, and at index \<open>insert_position delay n\<close>, which
  is \<open>min (delay + 1) n\<close>, for \<open>delay > 0\<close>.
\<close>

lemma requeue_after_yield_position:
  fixes s1 :: "'a tasking_scheme"
  assumes Y: "dart__tasking__yield progress now self delay s = Some (Yield_swapped_out, s1)"
      and T: "get_thread s1 self = Some th1" and C: "th_current_task th1 = Some task"
      and S: "t_state s1 task = DART_TASK_SUSPENDED"
      and R: "st_rep s1 A" and q: "th_numa_id th1 < length A" and nq: "\<not> queued A task"
      and k: "k = (if delay = 0 then 0
                   else if delay > 0
                   then insert_position (nat delay)
                          (length (prio_deque (t_prio s1) task (A ! th_numa_id th1)))
                   else length (prio_deque (t_prio s1) task (A ! th_numa_id th1)))"
  shows "\<exists>s2. handle_task_returned self s1 = Some (Requeued, s2)
           \<and> st_rep s2 (add_with (t_prio s1) (\<lambda>xs. take k xs @ task # drop k xs)
                          (th_numa_id th1) task A)"
proof -
  define xs where "xs = prio_deque (t_prio s1) task (A ! th_numa_id th1)"
  define g where "g = (if delay = 0 then (#) task
                       else if delay > 0 then insert_at (nat delay) task
                       else (\<lambda>xs. xs @ [task]))"
  have d: "th_delay th1 = delay" by (rule yield_swapped_out_delay [OF Y T C S])
  from requeue_task_rep [OF R T q nq] d obtain s2 where
    rq: "requeue_task self task s1 = Some s2"
    and st: "st_rep s2 (add_with (t_prio s1) g (th_numa_id th1) task A)"
    unfolding g_def by auto
  have h: "handle_task_returned self s1 = Some (Requeued, s2)"
    using T C S rq by (simp add: handle_task_returned_def)
  have "g xs = take k xs @ task # drop k xs"
    unfolding k xs_def [symmetric] by (simp add: g_def insert_at_def)
  then have e: "add_with (t_prio s1) g (th_numa_id th1) task A
        = add_with (t_prio s1) (\<lambda>xs. take k xs @ task # drop k xs) (th_numa_id th1) task A"
    unfolding xs_def by (rule add_with_cong)
  from h st e show ?thesis by auto
qed

text \<open>
  No position argument makes \<open>task_deque_insert\<close> place a task at index 1 of a deque of two
  or more tasks: position 0 gives index 0, every other position an index of at least 2.
\<close>

lemma insert_position_never_one: "2 \<le> n \<Longrightarrow> insert_position pos n \<noteq> 1"
  by (auto simp add: insert_position_def min_def)

lemma example_yield:
  "dart__tasking__yield id 0 0 1 example_tasking = Some (Yield_swapped_out, example_yielded)"
  by (simp add: dart__tasking__yield_def next_task_def next_task_thread_def get_thread_def
        set_thread_def example_tasking_def example_thread_def example_yielded_def Let_def)


text \<open>
  C1.  The requeue policy for a positive delay is not what the worker does.  In the
  example state task 9 calls \<open>yield(1)\<close> while the low-priority deque of its queue holds
  the tasks 1, 2 and 3.  The task is suspended and swapped out, and the worker requeues
  it behind task 2: the links run 1, 2, 9, 3, so two tasks are in front of it, where one
  position from the head is the place behind task 1.  \<open>task_deque_insert\<close> walks \<open>pos\<close>
  links from the head and then inserts behind the task it has arrived at.
\<close>

theorem requeue_delay_one_behind_two_tasks:
  "\<exists>s2. dart__tasking__yield id 0 0 1 example_tasking = Some (Yield_swapped_out, example_yielded)
        \<and> handle_task_returned 0 example_yielded = Some (Requeued, s2)
        \<and> head (lowprio (task_queue s2 ! 0)) = Some 1
        \<and> t_next s2 1 = Some 2 \<and> t_next s2 2 = Some 9 \<and> t_next s2 9 = Some 3
        \<and> t_next s2 3 = None \<and> tail (lowprio (task_queue s2 ! 0)) = Some 3"
proof -
  have "handle_task_returned 0 example_yielded
        = Some (Requeued, example_yielded\<lparr>
             t_next := (\<lambda>t. if t = 1 then Some 2 else if t = 2 then Some 9
                             else if t = 9 then Some 3 else None),
             t_prev := (\<lambda>t. if t = 2 then Some 1 else if t = 9 then Some 2
                             else if t = 3 then Some 9 else None) \<rparr>)"
    by (simp add: handle_task_returned_def requeue_task_def get_thread_def
          dart_tasking_taskqueue_insert_def with_queue_def
          dart_tasking_taskqueue_insert_unsafe_def task_deque_insert_def
          example_yielded_def example_tasking_def example_thread_def Let_def fun_eq_iff)
  with example_yield show ?thesis
    by (simp add: example_yielded_def example_tasking_def)
qed

section \<open>Creating tasks\<close>


lemma dq_rep_cong_on:
  "\<forall>x \<in> set xs. t_next h' x = t_next h x \<and> t_prev h' x = t_prev h x
   \<Longrightarrow> dq_rep h' d xs = dq_rep h d xs"
  unfolding dq_rep_def using chain_frame [of xs "t_next h'" "t_next h" "t_prev h'" "t_prev h"]
  by simp

lemma tq_rep_cong_on:
  assumes "\<forall>x \<in> set hs \<union> set ls. t_next h' x = t_next h x \<and> t_prev h' x = t_prev h x
                                  \<and> t_prio h' x = t_prio h x"
  shows "tq_rep h' tq hs ls = tq_rep h tq hs ls"
proof -
  have "dq_rep h' (highprio tq) hs = dq_rep h (highprio tq) hs"
    using assms by (intro dq_rep_cong_on) simp
  moreover have "dq_rep h' (lowprio tq) ls = dq_rep h (lowprio tq) ls"
    using assms by (intro dq_rep_cong_on) simp
  ultimately show ?thesis using assms by (auto simp: tq_rep_def)
qed

lemma enqueue_runnable_deferred:
  fixes u :: "'a tasking_scheme"
  assumes nc: "\<not> cancellation_requested u"
      and st: "t_state u task = DART_TASK_CREATED"
      and ru: "dart_tasking_datadeps_is_runnable u task"
      and pa: "t_parent u task = Some (root_task u)"
      and ph: "\<not> dart__tasking__phase_is_runnable u (t_phase u task)"
      and R: "tq_rep u (local_deferred_tasks u) hs ls"
      and t: "task \<notin> set hs \<union> set ls"
  shows "\<exists>u'. dart__tasking__enqueue_runnable env self task u = Some u'
           \<and> t_state u' task = DART_TASK_DEFERRED
           \<and> tq_rep u' (local_deferred_tasks u')
                (if t_prio u task = DART_PRIO_HIGH then hs @ [task] else hs)
                (if t_prio u task = DART_PRIO_HIGH then ls else ls @ [task])
           \<and> t_prio u' = t_prio u"
proof -
  define s2 where "s2 = u\<lparr> t_state := (t_state u)(task := DART_TASK_DEFERRED) \<rparr>"
  have "tq_rep s2 (local_deferred_tasks u) hs ls = tq_rep u (local_deferred_tasks u) hs ls"
    by (rule tq_rep_cong) (simp_all add: s2_def)
  with R have r2: "tq_rep s2 (local_deferred_tasks u) hs ls" by simp
  from taskqueue_pushback_unsafe_rep [OF r2 t] obtain h' tq' where
    pb: "dart_tasking_taskqueue_pushback_unsafe s2 (local_deferred_tasks u) task = Some (h', tq')"
    and rep: "tq_rep h' tq' (if t_prio s2 task = DART_PRIO_HIGH then hs @ [task] else hs)
                            (if t_prio s2 task = DART_PRIO_HIGH then ls else ls @ [task])"
    and fr: "links_frame s2 h' (insert task (set hs \<union> set ls))"
    by blast
  have ph1: "\<not> dart__tasking__phase_is_runnable
                 (u\<lparr> t_state := (t_state u)(task := DART_TASK_QUEUED) \<rparr>) (t_phase u task)"
    using ph by (cases "t_phase u task") (simp_all add: dart__tasking__phase_is_runnable_def)
  have e: "dart__tasking__enqueue_runnable env self task u
           = Some (h'\<lparr> local_deferred_tasks := tq' \<rparr>)"
    using nc st ru pa ph1 pb
    by (simp add: dart__tasking__enqueue_runnable_def s2_def)
  from fr have h': "h' = s2\<lparr> t_next := t_next h', t_prev := t_prev h' \<rparr>"
    by (simp add: links_frame_def)
  have s': "t_state h' task = DART_TASK_DEFERRED"
    by (subst h') (simp add: s2_def)
  have "tq_rep (h'\<lparr> local_deferred_tasks := tq' \<rparr>) tq'
          (if t_prio s2 task = DART_PRIO_HIGH then hs @ [task] else hs)
          (if t_prio s2 task = DART_PRIO_HIGH then ls else ls @ [task])
        = tq_rep h' tq' (if t_prio s2 task = DART_PRIO_HIGH then hs @ [task] else hs)
                        (if t_prio s2 task = DART_PRIO_HIGH then ls else ls @ [task])"
    by (rule tq_rep_cong) simp_all
  moreover have "t_prio h' = t_prio u" by (subst h') (simp add: s2_def)
  ultimately show ?thesis using rep e s' by (simp add: s2_def)
qed

lemma create_task_by_root:
  fixes s0 :: "'a tasking_scheme"
  assumes T: "get_thread s0 self = Some th" and C: "th_current_task th = Some (root_task s0)"
      and Rt: "t_state s0 (root_task s0) = DART_TASK_ROOT"
      and tid: "0 \<le> th_thread_id th" "th_thread_id th < int (length (task_free_lists s0))"
      and new: "task = allocated_task pool_task self s0"
      and ne: "task \<noteq> root_task s0"
  shows "\<exists>s1. create_task pool_task self task_fn data_size var_space_size prio s0 = Some (task, s1)
           \<and> t_parent s1 task = Some (root_task s0)
           \<and> t_phase s1 task = Some (phase_current s0)
           \<and> t_unresolved_deps s1 task = 0 \<and> t_unresolved_remote_deps s1 task = 0
           \<and> root_task s1 = root_task s0 \<and> phase_runnable s1 = phase_runnable s0
           \<and> cancellation_requested s1 = cancellation_requested s0
           \<and> local_deferred_tasks s1 = local_deferred_tasks s0
           \<and> t_next s1 = t_next s0
           \<and> (\<forall>x. x \<noteq> task \<longrightarrow> t_prev s1 x = t_prev s0 x \<and> t_prio s1 x = t_prio s0 x)"
proof -
  from tid have n: "\<not> length (task_free_lists s0) \<le> nat (th_thread_id th)" by linarith
  from n T C Rt new ne tid(1) show ?thesis
  by (cases "task_free_lists s0 ! nat (th_thread_id th)"; cases prio)
     (simp_all add: create_task_def allocate_task_def allocated_task_def
        dart__tasking__thread_num_def get_thread_def Let_def split: if_splits)
qed


lemma get_thread_threads_running:
  "get_thread (s\<lparr> threads_running := b \<rparr>) i = get_thread s i"
  by (simp add: get_thread_def)

lemma allocated_task_threads_running:
  "allocated_task pool_task self (s\<lparr> threads_running := b \<rparr>) = allocated_task pool_task self s"
  by (simp add: allocated_task_def dart__tasking__thread_num_def get_thread_threads_running)

text \<open>
  C5.  \<open>dart__tasking__create_task\<close> returns \<open>DART_OK\<close> in each of these cases.  While a
  cancellation is requested the call returns \<open>DART_OK\<close> and drops the task: the state is
  the one before the call, no task object is taken, nothing is queued, no reference is
  handed out.  Whenever the call returns, the code it returns is \<open>DART_OK\<close>.  And when the
  root task creates a task without unresolved dependencies (the dependency engine has
  nothing to register for it) while the current phase is not runnable, the call returns
  \<open>DART_OK\<close>, the task is in state \<open>DEFERRED\<close>, and it has been appended to the deque of its
  priority in the queue of deferred tasks.
\<close>

theorem create_task_returns_ok:
  fixes s :: "'a tasking_scheme"
  shows
    "(cancellation_requested s \<longrightarrow>
        dart__tasking__create_task env pool_task self task_fn data_size var_space_size deps prio
          flags want_ref s = Some (DART_OK, None, s))
     \<and> (\<forall>r ref s'.
          dart__tasking__create_task env pool_task self task_fn data_size var_space_size deps prio
            flags want_ref s = Some (r, ref, s') \<longrightarrow> r = DART_OK)
     \<and> (\<not> cancellation_requested s
          \<and> get_thread s self = Some th \<and> th_current_task th = Some (root_task s)
          \<and> t_state s (root_task s) = DART_TASK_ROOT
          \<and> 0 \<le> th_thread_id th \<and> th_thread_id th < int (length (task_free_lists s))
          \<and> task = allocated_task pool_task self s \<and> task \<noteq> root_task s
          \<and> \<not> phase_runnable s (phase_current s)
          \<and> (\<forall>x. env_datadeps_handle_task env task deps x = x)
          \<and> tq_rep s (local_deferred_tasks s) hs ls \<and> task \<notin> set hs \<union> set ls
        \<longrightarrow> (\<exists>s'.
              dart__tasking__create_task env pool_task self task_fn data_size var_space_size deps
                prio flags want_ref s = Some (DART_OK, if want_ref then Some task else None, s')
              \<and> t_state s' task = DART_TASK_DEFERRED
              \<and> tq_rep s' (local_deferred_tasks s')
                   (if t_prio s' task = DART_PRIO_HIGH then hs @ [task] else hs)
                   (if t_prio s' task = DART_PRIO_HIGH then ls else ls @ [task])))"
proof (intro conjI impI allI)
  assume "cancellation_requested s"
  then show "dart__tasking__create_task env pool_task self task_fn data_size var_space_size deps
               prio flags want_ref s = Some (DART_OK, None, s)"
    by (simp add: dart__tasking__create_task_def)
next
  fix r ref s'
  assume "dart__tasking__create_task env pool_task self task_fn data_size var_space_size deps prio
            flags want_ref s = Some (r, ref, s')"
  then show "r = DART_OK"
    by (auto simp: dart__tasking__create_task_def Let_def
             split: if_splits option.splits prod.splits)
next
  assume H: "\<not> cancellation_requested s
          \<and> get_thread s self = Some th \<and> th_current_task th = Some (root_task s)
          \<and> t_state s (root_task s) = DART_TASK_ROOT
          \<and> 0 \<le> th_thread_id th \<and> th_thread_id th < int (length (task_free_lists s))
          \<and> task = allocated_task pool_task self s \<and> task \<noteq> root_task s
          \<and> \<not> phase_runnable s (phase_current s)
          \<and> (\<forall>x. env_datadeps_handle_task env task deps x = x)
          \<and> tq_rep s (local_deferred_tasks s) hs ls \<and> task \<notin> set hs \<union> set ls"
  define s0 where "s0 = (if threads_running s then s else s\<lparr> threads_running := True \<rparr>)"
  have st: "(if \<not> threads_running s then start_threads s else Some s) = Some s0"
    by (simp add: start_threads_def s0_def)
  have T: "get_thread s0 self = Some th" using H by (simp add: s0_def get_thread_threads_running)
  have C: "th_current_task th = Some (root_task s0)" using H by (simp add: s0_def)
  have Rt: "t_state s0 (root_task s0) = DART_TASK_ROOT" using H by (simp add: s0_def)
  have tid: "0 \<le> th_thread_id th" "th_thread_id th < int (length (task_free_lists s0))"
    using H by (simp_all add: s0_def)
  have new: "task = allocated_task pool_task self s0"
    using H by (simp add: s0_def allocated_task_threads_running)
  have ne: "task \<noteq> root_task s0" using H by (simp add: s0_def)
  from create_task_by_root [OF T C Rt tid new ne, of task_fn data_size var_space_size prio]
  obtain s1 where
    c: "create_task pool_task self task_fn data_size var_space_size prio s0 = Some (task, s1)"
    and pa: "t_parent s1 task = Some (root_task s0)"
    and ph: "t_phase s1 task = Some (phase_current s0)"
    and un: "t_unresolved_deps s1 task = 0" "t_unresolved_remote_deps s1 task = 0"
    and k: "root_task s1 = root_task s0" "phase_runnable s1 = phase_runnable s0"
      "cancellation_requested s1 = cancellation_requested s0"
      "local_deferred_tasks s1 = local_deferred_tasks s0" "t_next s1 = t_next s0"
    and fr: "\<forall>x. x \<noteq> task \<longrightarrow> t_prev s1 x = t_prev s0 x \<and> t_prio s1 x = t_prio s0 x"
    by blast
  define s2 where "s2 = (if want_ref
                         then s1\<lparr> t_flags := (t_flags s1)(task :=
                                     insert DART_TASK_HAS_REF (t_flags s1 task)) \<rparr>
                         else s1)"
  define s3 where "s3 = (if DART_TASK_NOYIELD \<in> flags
                         then s2\<lparr> t_flags := (t_flags s2)(task :=
                                     insert DART_TASK_INLINE (t_flags s2 task)) \<rparr>
                         else s2)"
  define s4 where "s4 = s3\<lparr> t_num_children := (t_num_children s3)
                                (root_task s0 := t_num_children s3 (root_task s0) + 1) \<rparr>"
  define s6 where "s6 = s4\<lparr> t_state := (t_state s4)(task := DART_TASK_CREATED) \<rparr>"
  have p3: "t_parent s3 task = Some (root_task s0)" using pa by (simp add: s3_def s2_def)
  have ru: "dart_tasking_datadeps_is_runnable s6 task"
    using un by (simp add: dart_tasking_datadeps_is_runnable_def s6_def s4_def s3_def s2_def)
  have e: "dart__tasking__create_task env pool_task self task_fn data_size var_space_size deps
             prio flags want_ref s
           = map_option (\<lambda>s7. (DART_OK, if want_ref then Some task else None, s7))
               (dart__tasking__enqueue_runnable env self task s6)"
  proof -
    from H have nc0: "\<not> cancellation_requested s"
      and ei: "\<And>x. env_datadeps_handle_task env task deps x = x" by blast+
    from nc0 st c pa un ei show ?thesis
      unfolding dart__tasking__create_task_def
      by (cases want_ref; cases "DART_TASK_NOYIELD \<in> flags")
         (simp_all add: Let_def s6_def s4_def s3_def s2_def dart_tasking_datadeps_is_runnable_def)
  qed
  have nc: "\<not> cancellation_requested s6"
    using H k by (simp add: s6_def s4_def s3_def s2_def s0_def)
  have st6: "t_state s6 task = DART_TASK_CREATED" by (simp add: s6_def)
  have pa6: "t_parent s6 task = Some (root_task s6)"
    using pa k by (simp add: s6_def s4_def s3_def s2_def)
  have ph6: "\<not> dart__tasking__phase_is_runnable s6 (t_phase s6 task)"
    using H ph k
    by (simp add: dart__tasking__phase_is_runnable_def s6_def s4_def s3_def s2_def s0_def)
  have "tq_rep s6 (local_deferred_tasks s) hs ls = tq_rep s (local_deferred_tasks s) hs ls"
  proof (rule tq_rep_cong_on, intro ballI)
    fix x assume "x \<in> set hs \<union> set ls"
    with H have "x \<noteq> task" by blast
    with fr k show "t_next s6 x = t_next s x \<and> t_prev s6 x = t_prev s x \<and> t_prio s6 x = t_prio s x"
      by (simp add: s6_def s4_def s3_def s2_def s0_def)
  qed
  moreover have "local_deferred_tasks s6 = local_deferred_tasks s"
    using k by (simp add: s6_def s4_def s3_def s2_def s0_def)
  ultimately have R6: "tq_rep s6 (local_deferred_tasks s6) hs ls" using H by simp
  from H have t: "task \<notin> set hs \<union> set ls" by blast
  from enqueue_runnable_deferred [OF nc st6 ru pa6 ph6 R6 t, of env self]
  obtain u' where "dart__tasking__enqueue_runnable env self task s6 = Some u'"
    and "t_state u' task = DART_TASK_DEFERRED"
    and "tq_rep u' (local_deferred_tasks u')
           (if t_prio s6 task = DART_PRIO_HIGH then hs @ [task] else hs)
           (if t_prio s6 task = DART_PRIO_HIGH then ls else ls @ [task])"
    and "t_prio u' = t_prio s6"
    by blast
  with e show "\<exists>s'.
              dart__tasking__create_task env pool_task self task_fn data_size var_space_size deps
                prio flags want_ref s = Some (DART_OK, if want_ref then Some task else None, s')
              \<and> t_state s' task = DART_TASK_DEFERRED
              \<and> tq_rep s' (local_deferred_tasks s')
                   (if t_prio s' task = DART_PRIO_HIGH then hs @ [task] else hs)
                   (if t_prio s' task = DART_PRIO_HIGH then ls else ls @ [task])"
    by simp
qed


theorem create_task_returns_ok_witness:
  "cancellation_requested example_cancelling
   \<and> dart__tasking__create_task example_env 7 0 (Some 0) 0 64 [] DART_PRIO_DEFAULT {} True
         example_cancelling = Some (DART_OK, None, example_cancelling)
   \<and> \<not> cancellation_requested example_root
   \<and> \<not> phase_runnable example_root (phase_current example_root)
   \<and> (\<exists>s'. dart__tasking__create_task example_env 7 0 (Some 0) 0 64 [] DART_PRIO_DEFAULT {} True
               example_root = Some (DART_OK, Some 7, s')
           \<and> t_state s' 7 = DART_TASK_DEFERRED
           \<and> tq_rep s' (local_deferred_tasks s')
                (if t_prio s' 7 = DART_PRIO_HIGH then [7] else [])
                (if t_prio s' 7 = DART_PRIO_HIGH then [] else [7]))"
proof -
  let ?th = "example_thread\<lparr> th_current_task := Some 0 \<rparr>"
  have c: "cancellation_requested example_cancelling" by (simp add: example_cancelling_def)
  have h: "\<not> cancellation_requested example_root"
    "get_thread example_root 0 = Some ?th" "th_current_task ?th = Some (root_task example_root)"
    "t_state example_root (root_task example_root) = DART_TASK_ROOT"
    "0 \<le> th_thread_id ?th" "th_thread_id ?th < int (length (task_free_lists example_root))"
    "7 = allocated_task 7 0 example_root" "7 \<noteq> root_task example_root"
    "\<not> phase_runnable example_root (phase_current example_root)"
    "\<forall>x. env_datadeps_handle_task example_env 7 [] x = x"
    "tq_rep example_root (local_deferred_tasks example_root) [] []"
    "7 \<notin> set [] \<union> set ([] :: nat list)"
    by (simp_all add: example_root_def example_tasking_def example_thread_def example_env_def
          get_thread_def allocated_task_def dart__tasking__thread_num_def tq_rep_def dq_rep_def
          dart_tasking_taskqueue_init_def)
  from create_task_returns_ok [where s = example_cancelling and env = example_env
         and pool_task = 7 and self = 0 and task_fn = "Some 0" and data_size = 0
         and var_space_size = 64 and deps = "[]" and prio = DART_PRIO_DEFAULT and flags = "{}"
         and want_ref = True] c
  have a: "dart__tasking__create_task example_env 7 0 (Some 0) 0 64 [] DART_PRIO_DEFAULT {} True
         example_cancelling = Some (DART_OK, None, example_cancelling)"
    by blast
  from create_task_returns_ok [where s = example_root and env = example_env
         and pool_task = 7 and self = 0 and task_fn = "Some 0" and data_size = 0
         and var_space_size = 64 and deps = "[]" and prio = DART_PRIO_DEFAULT and flags = "{}"
         and want_ref = True and th = ?th and task = 7 and hs = "[]" and ls = "[]"] h
  have "\<exists>s'. dart__tasking__create_task example_env 7 0 (Some 0) 0 64 [] DART_PRIO_DEFAULT {} True
               example_root = Some (DART_OK, if True then Some 7 else None, s')
           \<and> t_state s' 7 = DART_TASK_DEFERRED
           \<and> tq_rep s' (local_deferred_tasks s')
                (if t_prio s' 7 = DART_PRIO_HIGH then [] @ [7] else [])
                (if t_prio s' 7 = DART_PRIO_HIGH then [] else [] @ [7])"
    by blast
  then have b: "\<exists>s'. dart__tasking__create_task example_env 7 0 (Some 0) 0 64 [] DART_PRIO_DEFAULT {} True
               example_root = Some (DART_OK, Some 7, s')
           \<and> t_state s' 7 = DART_TASK_DEFERRED
           \<and> tq_rep s' (local_deferred_tasks s')
                (if t_prio s' 7 = DART_PRIO_HIGH then [7] else [])
                (if t_prio s' 7 = DART_PRIO_HIGH then [] else [7])"
    by (simp only: append_Nil if_True)
  from c a h(1) h(9) b show ?thesis by blast
qed

end
